theory Spec2Isabelle
  imports Main
begin

section \<open>Go standard-library helpers used by the configuration loader\<close>

text \<open>
  Paths, file contents and keys are byte strings. The helpers below follow the
  documented behaviour of Go's \<^verbatim>\<open>strings\<close> and \<^verbatim>\<open>path/filepath\<close> packages on a
  Unix system (separator \<^verbatim>\<open>/\<close>, no volume names).
\<close>

type_synonym path = string
type_synonym bytes = string

definition strings_HasSuffix :: "string \<Rightarrow> string \<Rightarrow> bool" where
  "strings_HasSuffix s suffix =
     (length suffix \<le> length s \<and> drop (length s - length suffix) s = suffix)"

definition strings_TrimSuffix :: "string \<Rightarrow> string \<Rightarrow> string" where
  "strings_TrimSuffix s suffix =
     (if strings_HasSuffix s suffix then take (length s - length suffix) s else s)"

definition strings_TrimLeft :: "string \<Rightarrow> string \<Rightarrow> string" where
  "strings_TrimLeft s cutset = dropWhile (\<lambda>c. c \<in> set cutset) s"

fun strings_Join :: "string list \<Rightarrow> string \<Rightarrow> string" where
  "strings_Join [] sep = []"
| "strings_Join [e] sep = e"
| "strings_Join (e # es) sep = e @ sep @ strings_Join es sep"

text \<open>
  \<^verbatim>\<open>filepath.Ext\<close> scans backwards from the end of the path, stops at the first
  separator and returns the text from the last dot of the final element on.
\<close>

fun ext_scan :: "string \<Rightarrow> string \<Rightarrow> string" where
  "ext_scan [] acc = []"
| "ext_scan (c # cs) acc =
     (if c = CHR ''/'' then []
      else if c = CHR ''.'' then c # acc
      else ext_scan cs (c # acc))"

definition filepath_Ext :: "path \<Rightarrow> string" where
  "filepath_Ext p = ext_scan (rev p) []"

fun split_sep :: "string \<Rightarrow> string list" where
  "split_sep [] = [[]]"
| "split_sep (c # cs) =
     (if c = CHR ''/'' then [] # split_sep cs
      else (case split_sep cs of
              [] \<Rightarrow> [[c]]
            | x # xs \<Rightarrow> (c # x) # xs))"

text \<open>
  \<^verbatim>\<open>filepath.Clean\<close>: empty and \<^verbatim>\<open>.\<close> elements are dropped, an inner \<^verbatim>\<open>..\<close> removes
  the element before it, \<^verbatim>\<open>..\<close> at the root is dropped, and the empty result is
  \<^verbatim>\<open>.\<close>. The stack holds the kept elements, the last one first.
\<close>

definition clean_step :: "bool \<Rightarrow> string list \<Rightarrow> string \<Rightarrow> string list" where
  "clean_step rooted st c =
     (if c = [] \<or> c = ''.'' then st
      else if c = ''..'' then
        (case st of
           [] \<Rightarrow> (if rooted then [] else [c])
         | t # ts \<Rightarrow> (if t = ''..'' then c # st else ts))
      else c # st)"

definition filepath_Clean :: "path \<Rightarrow> path" where
  "filepath_Clean p =
     (if p = [] then ''.''
      else
        (let rooted = (hd p = CHR ''/'');
             out = strings_Join (rev (foldl (clean_step rooted) [] (split_sep p))) ''/''
         in if rooted then CHR ''/'' # out
            else if out = [] then ''.'' else out))"

text \<open>\<^verbatim>\<open>filepath.Dir\<close> cleans everything up to and including the last separator.\<close>

definition filepath_Dir :: "path \<Rightarrow> path" where
  "filepath_Dir p = filepath_Clean (rev (dropWhile (\<lambda>c. c \<noteq> CHR ''/'') (rev p)))"

text \<open>\<^verbatim>\<open>filepath.Join\<close> of two elements: empty elements are ignored, the rest is
  joined with the separator and cleaned.\<close>

definition filepath_Join :: "path \<Rightarrow> path \<Rightarrow> path" where
  "filepath_Join a b =
     (if a \<noteq> [] then filepath_Clean (a @ ''/'' @ b)
      else if b \<noteq> [] then filepath_Clean b
      else [])"

section \<open>Errors, dynamic values and the world outside the package\<close>

text \<open>
  An error value is either produced by a collaborator (\<open>External\<close>, with its message),
  created by \<^verbatim>\<open>errors.Errorf\<close>, or an error wrapped with a message by
  \<^verbatim>\<open>errors.Wrap\<close>/\<^verbatim>\<open>errors.Wrapf\<close>.
\<close>

datatype error = External string | Errorf string | Wrapf error string

text \<open>The format verb \<^verbatim>\<open>%q\<close> puts the string in double quotes (the escaping of
  special characters inside it is not modelled).\<close>

definition fmt_q :: "string \<Rightarrow> string" where
  "fmt_q s = [CHR 0x22] @ s @ [CHR 0x22]"

text \<open>A Go \<^verbatim>\<open>interface{}\<close> value, by dynamic type. \<open>IOther\<close> stands for every dynamic
  type the package never inspects (floats, slices, nested maps), tagged by a number.\<close>

datatype iface = INil | IString string | IInt int | IInt64 int | IBool bool | IOther nat

text \<open>
  A file-system entry, and what a reader handed to a collaborator yields: an open file
  (regular or a directory, which \<^verbatim>\<open>os.Open\<close> opens as well), the plaintext of an
  AES reader wrapper, or a reader over bytes in memory.
\<close>

datatype fnode = Regular bytes | Directory

datatype reader = FileReader fnode | AesReader bytes | BytesReader bytes

type_synonym filesystem = "(path \<times> fnode) list"

definition os_Open :: "filesystem \<Rightarrow> path \<Rightarrow> error + fnode" where
  "os_Open fs p =
     (case map_of fs p of
        None \<Rightarrow> Inl (External (''open '' @ p @ '': no such file or directory''))
      | Some n \<Rightarrow> Inr n)"

text \<open>\<^verbatim>\<open>gutils.IsFile\<close> (a helper of the utility library): an error when the path does not
  exist, otherwise whether it is a file rather than a directory.\<close>

definition gutils_IsFile :: "filesystem \<Rightarrow> path \<Rightarrow> error + bool" where
  "gutils_IsFile fs p =
     (case map_of fs p of
        None \<Rightarrow> Inl (External (''stat '' @ p @ '': no such file or directory''))
      | Some Directory \<Rightarrow> Inr False
      | Some (Regular b) \<Rightarrow> Inr True)"

subsection \<open>The remote configuration as fetched\<close>

text \<open>
  \<^verbatim>\<open>remoteSrouce.Source\<close> is a Go map; it is kept as the list of its entries, in the
  order a \<^verbatim>\<open>range\<close> loop visits them. \<^verbatim>\<open>remoteCfg.Sources\<close> is a slice of pointers: \<open>None\<close>
  is a nil pointer (a JSON \<^verbatim>\<open>null\<close> element).
\<close>

record remoteSrouce =
  Name :: string
  Source :: "(string \<times> iface) list"

record remoteCfg =
  cfgName :: string
  Profiles :: "string list"
  Label :: string
  Version :: string
  Sources :: "remoteSrouce option list"

record SpringConfigServer =
  RemoteCfg :: remoteCfg
  url :: string
  profile :: string
  label :: string
  app :: string

subsection \<open>Collaborators\<close>

text \<open>
  The parsers of the store (\<open>unmarshalReader\<close>: serialization type and reader to a
  document), the AES reader wrapper, the string coercion of the store's \<^verbatim>\<open>GetString\<close> for
  values that are not strings, the file watcher and the HTTP client are external; the model
  takes them as parameters.
\<close>

type_synonym document = "string \<rightharpoonup> iface"

record collab =
  unmarshalReader :: "string \<Rightarrow> reader \<Rightarrow> error + document"
  NewAesReaderWrapper :: "fnode \<Rightarrow> bytes \<Rightarrow> error + bytes"
  cast_ToString :: "iface \<Rightarrow> string"
  WatchFileChanging :: "path list \<Rightarrow> error option"
  RequestJSON :: "string \<Rightarrow> error + remoteCfg"

section \<open>The store\<close>

text \<open>
  Modelled from the spec: the store is the external key/value library the package wraps;
  its code is not part of the repository. It holds the key/value pairs and the
  serialization type set by \<^verbatim>\<open>SetConfigType\<close>. \<^verbatim>\<open>ReadConfig\<close> replaces the content by the
  parsed document (the content is discarded before parsing), \<^verbatim>\<open>MergeConfig\<close> overlays the
  parsed document on the content (new values win, other keys are kept) and leaves the
  store alone when parsing fails, \<^verbatim>\<open>Set\<close> stores one pair, \<^verbatim>\<open>GetString\<close> reads a value
  as a string (the empty string when the key is absent).
\<close>

record viper =
  kv :: document
  configType :: string

definition viper_New :: viper where
  "viper_New = \<lparr>kv = Map.empty, configType = []\<rparr>"

definition viper_SetConfigType :: "string \<Rightarrow> viper \<Rightarrow> viper" where
  "viper_SetConfigType t vp = vp\<lparr>configType := t\<rparr>"

definition viper_ReadConfig :: "collab \<Rightarrow> reader \<Rightarrow> viper \<Rightarrow> error option \<times> viper" where
  "viper_ReadConfig ext rd vp =
     (case unmarshalReader ext (configType vp) rd of
        Inl e \<Rightarrow> (Some e, vp\<lparr>kv := Map.empty\<rparr>)
      | Inr doc \<Rightarrow> (None, vp\<lparr>kv := doc\<rparr>))"

definition viper_MergeConfig :: "collab \<Rightarrow> reader \<Rightarrow> viper \<Rightarrow> error option \<times> viper" where
  "viper_MergeConfig ext rd vp =
     (case unmarshalReader ext (configType vp) rd of
        Inl e \<Rightarrow> (Some e, vp)
      | Inr doc \<Rightarrow> (None, vp\<lparr>kv := kv vp ++ doc\<rparr>))"

definition viper_Set :: "string \<Rightarrow> iface \<Rightarrow> viper \<Rightarrow> viper" where
  "viper_Set key val vp = vp\<lparr>kv := (kv vp)(key \<mapsto> val)\<rparr>"

definition viper_Get :: "string \<Rightarrow> viper \<Rightarrow> iface" where
  "viper_Get key vp = (case kv vp key of None \<Rightarrow> INil | Some x \<Rightarrow> x)"

definition viper_GetString :: "collab \<Rightarrow> string \<Rightarrow> viper \<Rightarrow> string" where
  "viper_GetString ext key vp =
     (case kv vp key of
        None \<Rightarrow> []
      | Some (IString s) \<Rightarrow> s
      | Some x \<Rightarrow> cast_ToString ext x)"

section \<open>The configuration instance\<close>

text \<open>
  The struct \<^verbatim>\<open>config\<close> embeds a reader/writer lock, owns the store \<open>v\<close> and a
  \<^verbatim>\<open>sync.Once\<close> for the file watch. The lock is kept as the history \<open>mu\<close> of its
  operations, interleaved in program order with the calls made directly on the store, so
  that one can read off whether a store call ran with the lock held. \<open>watchOnce\<close> is the
  done flag of the \<^verbatim>\<open>sync.Once\<close>; \<open>watchers\<close> lists the subscriptions started with the
  file watcher, each with the variables its event handler captured.
\<close>

datatype access = Reads | Writes

datatype event = EvLock | EvUnlock | EvRLock | EvRUnlock | EvStore access

type_synonym callback = nat

datatype Option =
    WithEnableInclude
  | WithAesEncrypt "bytes option"
  | WithEncryptedFileSuffix string
  | WithWatchFileModified "callback option"

record subscription =
  sub_files :: "path list"
  sub_entryFile :: path
  sub_opts :: "Option list"
  sub_callback :: "callback option"

record config =
  v :: viper
  mu :: "event list"
  watchOnce :: bool
  watchers :: "subscription list"

definition New :: config where
  "New = \<lparr>v = viper_New, mu = [], watchOnce = False, watchers = []\<rparr>"

definition mu_Lock :: "config \<Rightarrow> config" where
  "mu_Lock s = s\<lparr>mu := mu s @ [EvLock]\<rparr>"

definition mu_Unlock :: "config \<Rightarrow> config" where
  "mu_Unlock s = s\<lparr>mu := mu s @ [EvUnlock]\<rparr>"

definition mu_RLock :: "config \<Rightarrow> config" where
  "mu_RLock s = s\<lparr>mu := mu s @ [EvRLock]\<rparr>"

definition mu_RUnlock :: "config \<Rightarrow> config" where
  "mu_RUnlock s = s\<lparr>mu := mu s @ [EvRUnlock]\<rparr>"

text \<open>A call made on \<^verbatim>\<open>s.v\<close>: the store after it, and the call recorded in the history.\<close>

definition store_call :: "access \<Rightarrow> viper \<Rightarrow> config \<Rightarrow> config" where
  "store_call a vp s = s\<lparr>v := vp, mu := mu s @ [EvStore a]\<rparr>"

definition Get :: "string \<Rightarrow> config \<Rightarrow> iface \<times> config" where
  "Get key s =
     (let s1 = mu_RLock s;
          r = viper_Get key (v s1);
          s2 = store_call Reads (v s1) s1
      in (r, mu_RUnlock s2))"

definition GetString :: "collab \<Rightarrow> string \<Rightarrow> config \<Rightarrow> string \<times> config" where
  "GetString ext key s =
     (let s1 = mu_RLock s;
          r = viper_GetString ext key (v s1);
          s2 = store_call Reads (v s1) s1
      in (r, mu_RUnlock s2))"

definition Set :: "string \<Rightarrow> iface \<Rightarrow> config \<Rightarrow> config" where
  "Set key val s =
     (let s1 = mu_Lock s;
          s2 = store_call Writes (viper_Set key val (v s1)) s1
      in mu_Unlock s2)"

definition IsSet :: "string \<Rightarrow> config \<Rightarrow> bool \<times> config" where
  "IsSet key s =
     (let s1 = mu_Lock s;
          r = (kv (v s1) key \<noteq> None);
          s2 = store_call Reads (v s1) s1
      in (r, mu_Unlock s2))"

definition ReadConfig :: "collab \<Rightarrow> reader \<Rightarrow> config \<Rightarrow> error option \<times> config" where
  "ReadConfig ext rd s =
     (let s1 = mu_Lock s in
      case viper_ReadConfig ext rd (v s1) of
        (r, vp) \<Rightarrow> (r, mu_Unlock (store_call Writes vp s1)))"

definition MergeConfig :: "collab \<Rightarrow> reader \<Rightarrow> config \<Rightarrow> error option \<times> config" where
  "MergeConfig ext rd s =
     (let s1 = mu_Lock s in
      case viper_MergeConfig ext rd (v s1) of
        (r, vp) \<Rightarrow> (r, mu_Unlock (store_call Writes vp s1)))"

subsection \<open>Options\<close>

record option_t =
  enableInclude :: bool
  aesKey :: "bytes option"
  encryptedSuffix :: string
  watchModify :: bool
  watchModifyCallback :: "callback option"

text \<open>A byte slice is \<open>None\<close> when nil; a nil slice has no bytes.\<close>

definition slice_bytes :: "bytes option \<Rightarrow> bytes" where
  "slice_bytes k = (case k of None \<Rightarrow> [] | Some b \<Rightarrow> b)"

definition new_option :: option_t where
  "new_option = \<lparr>enableInclude = False, aesKey = None, encryptedSuffix = [],
                  watchModify = False, watchModifyCallback = None\<rparr>"

definition defaultEncryptSuffix :: string where
  "defaultEncryptSuffix = ''.enc''"

definition fillDefault :: "option_t \<Rightarrow> option_t" where
  "fillDefault opt = opt\<lparr>encryptedSuffix := defaultEncryptSuffix\<rparr>"

fun apply_Option :: "Option \<Rightarrow> option_t \<Rightarrow> error + option_t" where
  "apply_Option WithEnableInclude opt = Inr (opt\<lparr>enableInclude := True\<rparr>)"
| "apply_Option (WithAesEncrypt key) opt =
     (if length (slice_bytes key) = 0 then Inl (Errorf ''aes key is empty'')
      else Inr (opt\<lparr>aesKey := key\<rparr>))"
| "apply_Option (WithEncryptedFileSuffix suffix) opt = Inr (opt\<lparr>encryptedSuffix := suffix\<rparr>)"
| "apply_Option (WithWatchFileModified cb) opt =
     Inr (opt\<lparr>watchModify := True, watchModifyCallback := cb\<rparr>)"

fun applyOptfs :: "option_t \<Rightarrow> Option list \<Rightarrow> error + option_t" where
  "applyOptfs opt [] = Inr opt"
| "applyOptfs opt (f # opts) =
     (case apply_Option f opt of
        Inl e \<Rightarrow> Inl e
      | Inr opt' \<Rightarrow> applyOptfs opt' opts)"

definition settingsIncludeKey :: string where
  "settingsIncludeKey = ''include''"

definition isSettingsFileEncrypted :: "option_t \<Rightarrow> path \<Rightarrow> bool" where
  "isSettingsFileEncrypted opt fname =
     (if aesKey opt = None then False
      else if encryptedSuffix opt \<noteq> [] \<and> strings_HasSuffix fname (encryptedSuffix opt) then True
      else False)"

subsection \<open>Arming the file watch\<close>

text \<open>
  \<^verbatim>\<open>watchOnce.Do\<close> runs its function on the first call only, and counts the call as done
  whether or not the watcher could be started.
\<close>

definition watch ::
  "collab \<Rightarrow> option_t \<Rightarrow> path \<Rightarrow> path list \<Rightarrow> Option list \<Rightarrow> config \<Rightarrow> config" where
  "watch ext opt entryFile files opts s =
     (if watchOnce s then s
      else
        (case WatchFileChanging ext files of
           Some e \<Rightarrow> s\<lparr>watchOnce := True\<rparr>
         | None \<Rightarrow>
             s\<lparr>watchOnce := True,
               watchers := watchers s @
                 [\<lparr>sub_files = files, sub_entryFile = entryFile, sub_opts = opts,
                   sub_callback = watchModifyCallback opt\<rparr>]\<rparr>))"

subsection \<open>Loading from files\<close>

text \<open>The argument of \<^verbatim>\<open>SetConfigType\<close> in the include loop: the extension of the file
  name without the encrypted suffix, without its leading dots.\<close>

definition configTypeOf :: "option_t \<Rightarrow> path \<Rightarrow> string" where
  "configTypeOf opt curFpath =
     strings_TrimLeft (filepath_Ext (strings_TrimSuffix curFpath (encryptedSuffix opt))) ''.''"

text \<open>One pass of the include loop up to the \<^verbatim>\<open>include\<close> lookup: open the current file,
  set the serialization type from its name, and replace the store's content by it.\<close>

definition LoadFromFile_read ::
  "collab \<Rightarrow> filesystem \<Rightarrow> option_t \<Rightarrow> path \<Rightarrow> config \<Rightarrow> error option \<times> config" where
  "LoadFromFile_read ext fs opt curFpath s =
     (case os_Open fs curFpath of
        Inl e \<Rightarrow> (Some (Wrapf e (''open config file `'' @ curFpath @ ''`'')), s)
      | Inr fp \<Rightarrow>
          (let s1 = store_call Writes
                      (viper_SetConfigType (configTypeOf opt curFpath) (v s)) s
           in if isSettingsFileEncrypted opt curFpath then
                (case NewAesReaderWrapper ext fp (slice_bytes (aesKey opt)) of
                   Inl e \<Rightarrow> (Some e, s1)
                 | Inr plain \<Rightarrow>
                     (case ReadConfig ext (AesReader plain) s1 of
                        (Some e, s2) \<Rightarrow>
                          (Some (Wrapf e (''load encrypted config from file `'' @ curFpath @ ''`'')), s2)
                      | (None, s2) \<Rightarrow> (None, s2)))
              else
                (case ReadConfig ext (FileReader fp) s1 of
                   (Some e, s2) \<Rightarrow>
                     (Some (Wrapf e (''load config from file `'' @ curFpath @ ''`'')), s2)
                 | (None, s2) \<Rightarrow> (None, s2))))"

text \<open>
  The include loop of \<^verbatim>\<open>LoadFromFile\<close> (label \<^verbatim>\<open>RECUR_INCLUDE_LOOP\<close>). It returns the
  list of files on \<^verbatim>\<open>break\<close>, or the error of the pass that failed.
\<close>

lemma os_Open_Inr_dom: "os_Open fs p = Inr n \<Longrightarrow> p \<in> fst ` set fs"
  by (force simp: os_Open_def split: option.splits dest!: map_of_SomeD)

lemma LoadFromFile_read_opened:
  "LoadFromFile_read ext fs opt curFpath s = (None, s1) \<Longrightarrow> curFpath \<in> fst ` set fs"
  by (cases "os_Open fs curFpath") (auto simp: LoadFromFile_read_def dest: os_Open_Inr_dom)

function RECUR_INCLUDE_LOOP ::
  "collab \<Rightarrow> filesystem \<Rightarrow> option_t \<Rightarrow> path \<Rightarrow> path \<Rightarrow> path list \<Rightarrow> config
     \<Rightarrow> (error + path list) \<times> config" where
  "RECUR_INCLUDE_LOOP ext fs opt cfgDir curFpath cfgFiles s =
     (case LoadFromFile_read ext fs opt curFpath s of
        (Some e, s1) \<Rightarrow> (Inl e, s1)
      | (None, s1) \<Rightarrow>
          (case GetString ext settingsIncludeKey s1 of
             (inc, s2) \<Rightarrow>
               if inc = [] then (Inr cfgFiles, s2)
               else if filepath_Join cfgDir inc \<in> set cfgFiles then (Inr cfgFiles, s2)
               else RECUR_INCLUDE_LOOP ext fs opt cfgDir (filepath_Join cfgDir inc)
                      (cfgFiles @ [filepath_Join cfgDir inc]) s2))"
  by pat_completeness auto
termination RECUR_INCLUDE_LOOP
proof (relation "measure (\<lambda>(ext, fs, opt, cfgDir, curFpath, cfgFiles, s).
          2 * card (fst ` set fs - set cfgFiles) + (if curFpath \<in> fst ` set fs then 1 else 0))",
       goal_cases)
  case 1
  show ?case by simp
next
  case (2 ext fs opt cfgDir curFpath cfgFiles s x1 x2 inc s2)
  let ?n = "filepath_Join cfgDir inc"
  from 2 have cur: "curFpath \<in> fst ` set fs"
    using LoadFromFile_read_opened[of ext fs opt curFpath s x2] by simp
  from 2 have new: "?n \<notin> set cfgFiles" by simp
  show ?case
  proof (cases "?n \<in> fst ` set fs")
    case True
    have "fst ` set fs - set (cfgFiles @ [?n]) = (fst ` set fs - set cfgFiles) - {?n}"
      by auto
    moreover have "?n \<in> fst ` set fs - set cfgFiles" using True new by simp
    ultimately have "card (fst ` set fs - set (cfgFiles @ [?n])) < card (fst ` set fs - set cfgFiles)"
      by (metis List.finite_set card_Diff1_less finite_Diff finite_imageI)
    then show ?thesis using cur True by simp
  next
    case False
    have "fst ` set fs - set (cfgFiles @ [?n]) = fst ` set fs - set cfgFiles"
      using False by auto
    then show ?thesis using cur False by simp
  qed
qed

declare RECUR_INCLUDE_LOOP.simps [simp del]

text \<open>The body of the loop of \<^verbatim>\<open>loadConfigFiles\<close> (the function literal called once per
  file): open the file and merge it into the store.\<close>

definition loadConfigFiles_file ::
  "collab \<Rightarrow> filesystem \<Rightarrow> option_t \<Rightarrow> path \<Rightarrow> config \<Rightarrow> error option \<times> config" where
  "loadConfigFiles_file ext fs opt filePath s =
     (case os_Open fs filePath of
        Inl e \<Rightarrow> (Some (Wrapf e (''open config file `'' @ filePath @ ''`'')), s)
      | Inr fp \<Rightarrow>
          (if isSettingsFileEncrypted opt filePath then
             (case NewAesReaderWrapper ext fp (slice_bytes (aesKey opt)) of
                Inl e \<Rightarrow> (Some e, s)
              | Inr plain \<Rightarrow>
                  (case MergeConfig ext (AesReader plain) s of
                     (Some e, s1) \<Rightarrow>
                       (Some (Wrapf e (''merge encrypted config file `'' @ filePath @ ''`'')), s1)
                   | (None, s1) \<Rightarrow> (None, s1)))
           else
             (case MergeConfig ext (FileReader fp) s of
                (Some e, s1) \<Rightarrow> (Some (Wrapf e (''merge config file `'' @ filePath @ ''`'')), s1)
              | (None, s1) \<Rightarrow> (None, s1))))"

text \<open>The loop \<^verbatim>\<open>for i := len(cfgFiles) - 1; i >= 0; i--\<close>. The counter of the model is
  \<open>i + 1\<close>, so that \<open>0\<close> is the exit.\<close>

fun loadConfigFiles_loop ::
  "collab \<Rightarrow> filesystem \<Rightarrow> option_t \<Rightarrow> path list \<Rightarrow> nat \<Rightarrow> config \<Rightarrow> error option \<times> config" where
  "loadConfigFiles_loop ext fs opt cfgFiles 0 s = (None, s)"
| "loadConfigFiles_loop ext fs opt cfgFiles (Suc i) s =
     (case loadConfigFiles_file ext fs opt (cfgFiles ! i) s of
        (Some e, s1) \<Rightarrow> (Some e, s1)
      | (None, s1) \<Rightarrow> loadConfigFiles_loop ext fs opt cfgFiles i s1)"

definition loadConfigFiles ::
  "collab \<Rightarrow> filesystem \<Rightarrow> option_t \<Rightarrow> path list \<Rightarrow> config \<Rightarrow> error option \<times> config" where
  "loadConfigFiles ext fs opt cfgFiles s =
     loadConfigFiles_loop ext fs opt cfgFiles (length cfgFiles) s"

definition LoadFromFile ::
  "collab \<Rightarrow> filesystem \<Rightarrow> path \<Rightarrow> Option list \<Rightarrow> config \<Rightarrow> error option \<times> config" where
  "LoadFromFile ext fs entryFile opts s =
     (case gutils_IsFile fs entryFile of
        Inl e \<Rightarrow> (Some (Wrapf e (''check config file path '' @ fmt_q entryFile)), s)
      | Inr ok \<Rightarrow>
          if \<not> ok then (Some (Errorf (fmt_q entryFile @ '' is not a file'')), s)
          else
            (case applyOptfs (fillDefault new_option) opts of
               Inl e \<Rightarrow> (Some (Wrapf e ''apply options''), s)
             | Inr opt \<Rightarrow>
                 (case RECUR_INCLUDE_LOOP ext fs opt (filepath_Dir entryFile) entryFile
                         [entryFile] s of
                    (Inl e, s1) \<Rightarrow> (Some e, s1)
                  | (Inr cfgFiles, s1) \<Rightarrow>
                      (case loadConfigFiles ext fs opt cfgFiles s1 of
                         (Some e, s2) \<Rightarrow> (Some e, s2)
                       | (None, s2) \<Rightarrow>
                           (None,
                            if watchModify opt then watch ext opt entryFile cfgFiles opts s2
                            else s2)))))"

definition defaultConfigFileName :: string where
  "defaultConfigFileName = ''settings.yml''"

definition LoadFromDir ::
  "collab \<Rightarrow> filesystem \<Rightarrow> path \<Rightarrow> Option list \<Rightarrow> config \<Rightarrow> error option \<times> config" where
  "LoadFromDir ext fs dirPath opts s =
     LoadFromFile ext fs (filepath_Join dirPath defaultConfigFileName) opts s"

text \<open>The event handler registered by \<^verbatim>\<open>watch\<close>: it loads the entry file again with the
  same options; an error is logged and dropped.\<close>

definition watch_event :: "collab \<Rightarrow> filesystem \<Rightarrow> subscription \<Rightarrow> config \<Rightarrow> config" where
  "watch_event ext fs sub s = snd (LoadFromFile ext fs (sub_entryFile sub) (sub_opts sub) s)"

section \<open>The client of the remote configuration server\<close>

datatype panic = NilPointerDereference | InterfaceConversion

datatype 'a outcome = Return 'a | Panic panic

definition NewSpringConfigServer :: "string \<Rightarrow> string \<Rightarrow> string \<Rightarrow> string \<Rightarrow> SpringConfigServer" where
  "NewSpringConfigServer u a p l =
     \<lparr>RemoteCfg = \<lparr>cfgName = [], Profiles = [], Label = [], Version = [], Sources = []\<rparr>,
      url = u, profile = p, label = l, app = a\<rparr>"

definition Fetch :: "collab \<Rightarrow> SpringConfigServer \<Rightarrow> error + SpringConfigServer" where
  "Fetch ext c =
     (case RequestJSON ext (strings_Join [url c, app c, profile c, label c] ''/'') of
        Inl e \<Rightarrow> Inl (Wrapf e ''try to get config got error'')
      | Inr rc \<Rightarrow> Inr (c\<lparr>RemoteCfg := rc\<rparr>))"

text \<open>The inner loop of \<^verbatim>\<open>Get\<close> over the entries of one source.\<close>

fun Get_range :: "(string \<times> iface) list \<Rightarrow> string \<Rightarrow> iface option" where
  "Get_range [] name = None"
| "Get_range ((item, val) # rest) name =
     (if item = name then Some val else Get_range rest name)"

fun Get_sources :: "remoteSrouce option list \<Rightarrow> string \<Rightarrow> (iface \<times> bool) outcome" where
  "Get_sources [] name = Return (INil, False)"
| "Get_sources (None # rest) name = Panic NilPointerDereference"
| "Get_sources (Some src # rest) name =
     (case Get_range (Source src) name of
        Some val \<Rightarrow> Return (val, True)
      | None \<Rightarrow> Get_sources rest name)"

definition SpringConfigServer_Get :: "SpringConfigServer \<Rightarrow> string \<Rightarrow> (iface \<times> bool) outcome" where
  "SpringConfigServer_Get c name = Get_sources (Sources (RemoteCfg c)) name"

text \<open>\<^verbatim>\<open>val.(string)\<close> panics unless the dynamic type of \<open>val\<close> is string.\<close>

definition SpringConfigServer_GetString ::
  "SpringConfigServer \<Rightarrow> string \<Rightarrow> (string \<times> bool) outcome" where
  "SpringConfigServer_GetString c name =
     (case SpringConfigServer_Get c name of
        Panic p \<Rightarrow> Panic p
      | Return (val, ok) \<Rightarrow>
          if ok then
            (case val of
               IString str \<Rightarrow> Return (str, True)
             | _ \<Rightarrow> Panic InterfaceConversion)
          else Return ([], False))"

fun Map_range :: "(string \<times> iface) list \<Rightarrow> (string \<Rightarrow> iface \<Rightarrow> 'a \<Rightarrow> 'a) \<Rightarrow> 'a \<Rightarrow> 'a" where
  "Map_range [] setf st = st"
| "Map_range ((key, val) # rest) setf st = Map_range rest setf (setf key val st)"

fun Map_sources ::
  "remoteSrouce option list \<Rightarrow> (string \<Rightarrow> iface \<Rightarrow> 'a \<Rightarrow> 'a) \<Rightarrow> 'a \<Rightarrow> panic option \<times> 'a" where
  "Map_sources [] setf st = (None, st)"
| "Map_sources (None # rest) setf st = (Some NilPointerDereference, st)"
| "Map_sources (Some src # rest) setf st = Map_sources rest setf (Map_range (Source src) setf st)"

definition SpringConfigServer_Map ::
  "SpringConfigServer \<Rightarrow> (string \<Rightarrow> iface \<Rightarrow> 'a \<Rightarrow> 'a) \<Rightarrow> 'a \<Rightarrow> panic option \<times> 'a" where
  "SpringConfigServer_Map c setf st = Map_sources (Sources (RemoteCfg c)) setf st"

section \<open>Loading from the remote configuration server\<close>

text \<open>The method value \<^verbatim>\<open>s.v.Set\<close>: a call on the store itself, not on the instance.\<close>

definition v_Set :: "string \<Rightarrow> iface \<Rightarrow> config \<Rightarrow> config" where
  "v_Set key val s = store_call Writes (viper_Set key val (v s)) s"

definition LoadFromConfigServer ::
  "collab \<Rightarrow> string \<Rightarrow> string \<Rightarrow> string \<Rightarrow> string \<Rightarrow> config \<Rightarrow> error option outcome \<times> config" where
  "LoadFromConfigServer ext u a p l s =
     (case Fetch ext (NewSpringConfigServer u a p l) of
        Inl e \<Rightarrow> (Return (Some (Wrapf e ''try to fetch remote config got error'')), s)
      | Inr srv \<Rightarrow>
          (case SpringConfigServer_Map srv v_Set s of
             (Some pn, s1) \<Rightarrow> (Panic pn, s1)
           | (None, s1) \<Rightarrow> (Return None, s1)))"

definition LoadFromConfigServerWithRawYaml ::
  "collab \<Rightarrow> string \<Rightarrow> string \<Rightarrow> string \<Rightarrow> string \<Rightarrow> string \<Rightarrow> config
     \<Rightarrow> error option outcome \<times> config" where
  "LoadFromConfigServerWithRawYaml ext u a p l key s =
     (case Fetch ext (NewSpringConfigServer u a p l) of
        Inl e \<Rightarrow> (Return (Some (Wrapf e ''try to fetch remote config got error'')), s)
      | Inr srv \<Rightarrow>
          (case SpringConfigServer_GetString srv key of
             Panic pn \<Rightarrow> (Panic pn, s)
           | Return (raw, ok) \<Rightarrow>
               if \<not> ok then
                 (Return (Some (Errorf (''can not load raw cfg with key `'' @ key @ ''`''))), s)
               else
                 (let s1 = store_call Writes (viper_SetConfigType ''yaml'' (v s)) s in
                  case viper_ReadConfig ext (BytesReader raw) (v s1) of
                    (Some e, vp) \<Rightarrow>
                      (Return (Some (Wrapf e ''try to load config file got error'')),
                       store_call Writes vp s1)
                  | (None, vp) \<Rightarrow> (Return None, store_call Writes vp s1))))"

section \<open>Lock discipline\<close>

text \<open>
  Reading a history from the left: which lock is held, and whether every call on the
  store is made with the write lock held (for a mutation) or with some lock held (for a
  read).
\<close>

datatype held = Free | ReadHeld | WriteHeld

fun disciplined :: "held \<Rightarrow> event list \<Rightarrow> bool" where
  "disciplined h [] = True"
| "disciplined h (EvLock # es) = disciplined WriteHeld es"
| "disciplined h (EvUnlock # es) = disciplined Free es"
| "disciplined h (EvRLock # es) = disciplined ReadHeld es"
| "disciplined h (EvRUnlock # es) = disciplined Free es"
| "disciplined h (EvStore Writes # es) = (h = WriteHeld \<and> disciplined h es)"
| "disciplined h (EvStore Reads # es) = (h \<noteq> Free \<and> disciplined h es)"

section \<open>An example environment\<close>

text \<open>
  Concrete collaborators and files on which the theorems below are instantiated. The
  parser is a table: it knows a handful of documents, each under the serialization type
  it is written in, and rejects everything else, as a YAML parser rejects TOML text.
\<close>

definition example_parse :: "string \<Rightarrow> bytes \<Rightarrow> error + document" where
  "example_parse ty b =
     (if ty = ''yml'' then
        (if b = ''{include: base.yml, a: 2}'' then
           Inr (map_of [(''include'', IString ''base.yml''), (''a'', IInt 2)])
         else if b = ''{a: 1, b: 1}'' then
           Inr (map_of [(''a'', IInt 1), (''b'', IInt 1)])
         else if b = ''{include: inc/pong.yml, x: 1}'' then
           Inr (map_of [(''include'', IString ''inc/pong.yml''), (''x'', IInt 1)])
         else if b = ''{include: ping.yml, y: 2}'' then
           Inr (map_of [(''include'', IString ''ping.yml''), (''y'', IInt 2)])
         else if b = ''{include: extra.toml, a: 2}'' then
           Inr (map_of [(''include'', IString ''extra.toml''), (''a'', IInt 2)])
         else Inl (External ''yaml: unmarshal error''))
      else if ty = ''toml'' then
        (if b = ''b = 1'' then Inr (map_of [(''b'', IInt 1)])
         else Inl (External ''toml: parse error''))
      else Inl (External ''unsupported config type''))"

definition example_unmarshalReader :: "string \<Rightarrow> reader \<Rightarrow> error + document" where
  "example_unmarshalReader ty rd =
     (case rd of
        FileReader (Regular b) \<Rightarrow> example_parse ty b
      | FileReader Directory \<Rightarrow> example_parse ty []
      | AesReader b \<Rightarrow> example_parse ty b
      | BytesReader b \<Rightarrow> example_parse ty b)"

definition example_aes :: "fnode \<Rightarrow> bytes \<Rightarrow> error + bytes" where
  "example_aes fp key =
     (if fp = Regular ''c1ph3rt3xt'' \<and> key = ''0123456789abcdef'' then Inr ''{a: 1, b: 1}''
      else Inl (External ''cipher: message authentication failed''))"

definition example_fetch :: "string \<Rightarrow> error + remoteCfg" where
  "example_fetch u =
     (if u = ''http://cfg/app/dev/main'' then
        Inr \<lparr>cfgName = ''app'', Profiles = [''dev''], Label = ''main'', Version = ''1'',
             Sources = [Some \<lparr>Name = ''app-dev'', Source = [(''k'', IString ''val'')]\<rparr>]\<rparr>
      else Inl (External ''connection refused''))"

definition example_ext :: collab where
  "example_ext =
     \<lparr>unmarshalReader = example_unmarshalReader,
      NewAesReaderWrapper = example_aes,
      cast_ToString = (\<lambda>x. []),
      WatchFileChanging = (\<lambda>files. None),
      RequestJSON = example_fetch\<rparr>"

definition example_fs :: filesystem where
  "example_fs =
     [(''/etc/app/settings.yml'', Regular ''{include: base.yml, a: 2}''),
      (''/etc/app/base.yml'', Regular ''{a: 1, b: 1}''),
      (''/etc/app/ping.yml'', Regular ''{include: inc/pong.yml, x: 1}''),
      (''/etc/app/inc/pong.yml'', Regular ''{include: ping.yml, y: 2}''),
      (''/etc/app/main.yml'', Regular ''{include: extra.toml, a: 2}''),
      (''/etc/app/extra.toml'', Regular ''b = 1''),
      (''/etc/app/secret.yml.enc'', Regular ''n0t a c1ph3rt3xt'')]"

definition example_store :: config where
  "example_store = store_call Writes (viper_SetConfigType ''yml'' (v New)) New"

section \<open>Notions used to state the properties\<close>

text \<open>
  The document the store is handed for a file under a serialization type: the file is
  opened, decrypted when \<open>isSettingsFileEncrypted\<close> says so, and parsed. Both the include
  loop and \<open>loadConfigFiles\<close> feed the store this way.
\<close>

definition file_document ::
  "collab \<Rightarrow> filesystem \<Rightarrow> option_t \<Rightarrow> string \<Rightarrow> path \<Rightarrow> error + document" where
  "file_document ext fs opt ty p =
     (case os_Open fs p of
        Inl e \<Rightarrow> Inl e
      | Inr fp \<Rightarrow>
          if isSettingsFileEncrypted opt p then
            (case NewAesReaderWrapper ext fp (slice_bytes (aesKey opt)) of
               Inl e \<Rightarrow> Inl e
             | Inr plain \<Rightarrow> unmarshalReader ext ty (AesReader plain))
          else unmarshalReader ext ty (FileReader fp))"

text \<open>The string read back under the \<^verbatim>\<open>include\<close> key from a store that holds exactly the
  document of a file, parsed under the file's own type.\<close>

definition include_of :: "collab \<Rightarrow> filesystem \<Rightarrow> option_t \<Rightarrow> path \<Rightarrow> string" where
  "include_of ext fs opt p =
     (case file_document ext fs opt (configTypeOf opt p) p of
        Inl e \<Rightarrow> []
      | Inr doc \<Rightarrow>
          viper_GetString ext settingsIncludeKey \<lparr>kv = doc, configType = configTypeOf opt p\<rparr>)"

text \<open>A list of paths in which each one is the directory \<open>dir\<close> joined with the non-empty
  include value of the path before it, starting after \<open>cur\<close>.\<close>

fun links :: "(path \<Rightarrow> string) \<Rightarrow> path \<Rightarrow> path \<Rightarrow> path list \<Rightarrow> bool" where
  "links inc dir cur [] = True"
| "links inc dir cur (n # ns) =
     (inc cur \<noteq> [] \<and> n = filepath_Join dir (inc cur) \<and> links inc dir n ns)"

text \<open>The file can be loaded on its own: it opens, decrypts and parses under its own type.\<close>

definition loads :: "collab \<Rightarrow> filesystem \<Rightarrow> option_t \<Rightarrow> path \<Rightarrow> bool" where
  "loads ext fs opt p = (case file_document ext fs opt (configTypeOf opt p) p of
                           Inl e \<Rightarrow> False | Inr doc \<Rightarrow> True)"

text \<open>Merging a list of files one after the other, stopping at the first failure.\<close>

fun merge_seq ::
  "collab \<Rightarrow> filesystem \<Rightarrow> option_t \<Rightarrow> path list \<Rightarrow> config \<Rightarrow> error option \<times> config" where
  "merge_seq ext fs opt [] s = (None, s)"
| "merge_seq ext fs opt (p # ps) s =
     (case loadConfigFiles_file ext fs opt p s of
        (Some e, s1) \<Rightarrow> (Some e, s1)
      | (None, s1) \<Rightarrow> merge_seq ext fs opt ps s1)"

text \<open>
  The life of an instance: calls of \<open>LoadFromFile\<close> and file events, each against the
  file system of its moment. A file event runs the handler of every subscription. A run
  starts from a new instance.
\<close>

datatype action = Load path "Option list" | FileEvent

definition step :: "collab \<Rightarrow> filesystem \<times> action \<Rightarrow> config \<Rightarrow> config" where
  "step ext x s =
     (case snd x of
        Load entryFile opts \<Rightarrow> snd (LoadFromFile ext (fst x) entryFile opts s)
      | FileEvent \<Rightarrow> fold (watch_event ext (fst x)) (watchers s) s)"




text \<open>Whether a dynamic value is a string, and whether a source is there (not nil) and has
  no entry for a key.\<close>

definition is_string :: "iface \<Rightarrow> bool" where
  "is_string x = (case x of IString str \<Rightarrow> True | _ \<Rightarrow> False)"

definition lacks :: "string \<Rightarrow> remoteSrouce option \<Rightarrow> bool" where
  "lacks name p = (case p of None \<Rightarrow> False | Some src \<Rightarrow> Get_range (Source src) name = None)"

definition example_srv :: SpringConfigServer where
  "example_srv =
     \<lparr>RemoteCfg =
        \<lparr>cfgName = ''app'', Profiles = [''dev''], Label = ''main'', Version = ''1'',
         Sources =
           [Some \<lparr>Name = ''first'', Source = [(''raw'', IString ''a: 1'')]\<rparr>,
            Some \<lparr>Name = ''second'', Source = [(''raw'', IInt 5), (''port'', IInt 8080)]\<rparr>]\<rparr>,
      url = ''http://cfg'', profile = ''dev'', label = ''main'', app = ''app''\<rparr>"

section \<open>Encrypted-source detection\<close>

lemma apply_Option_aesKey:
  "apply_Option f opt = Inr opt' \<Longrightarrow> aesKey opt \<noteq> Some [] \<Longrightarrow> aesKey opt' \<noteq> Some []"
  by (cases f) (auto simp: slice_bytes_def split: if_splits)

lemma applyOptfs_aesKey:
  "applyOptfs opt opts = Inr opt' \<Longrightarrow> aesKey opt \<noteq> Some [] \<Longrightarrow> aesKey opt' \<noteq> Some []"
proof (induction opts arbitrary: opt)
  case Nil
  then show ?case by simp
next
  case (Cons f opts)
  then show ?case
    by (cases "apply_Option f opt") (auto dest: apply_Option_aesKey)
qed

lemma strings_HasSuffix_iff: "strings_HasSuffix s suffix \<longleftrightarrow> (\<exists>pre. s = pre @ suffix)"
proof
  assume "strings_HasSuffix s suffix"
  then have "s = take (length s - length suffix) s @ suffix"
    by (metis append_take_drop_id strings_HasSuffix_def)
  then show "\<exists>pre. s = pre @ suffix" ..
next
  assume "\<exists>pre. s = pre @ suffix"
  then show "strings_HasSuffix s suffix"
    by (auto simp: strings_HasSuffix_def)
qed

text \<open>
  Claim C6. For the options of any \<^verbatim>\<open>LoadFromFile\<close> call (the defaults with the given
  option functions applied), \<open>isSettingsFileEncrypted\<close> returns true if and only if the
  AES key is non-empty and the file name ends with the encrypted suffix, where an empty
  suffix never matches. In particular it is false for every name when the key is empty,
  and false for every name and key when the suffix is empty. The code tests the key
  against nil; \<open>WithAesEncrypt\<close> rejects an empty key, so for these options nil and empty
  coincide.
\<close>

theorem isSettingsFileEncrypted_iff:
  assumes "applyOptfs (fillDefault new_option) opts = Inr opt"
  shows "(isSettingsFileEncrypted opt fname \<longleftrightarrow>
            slice_bytes (aesKey opt) \<noteq> [] \<and> encryptedSuffix opt \<noteq> [] \<and>
            (\<exists>pre. fname = pre @ encryptedSuffix opt))
         \<and> (slice_bytes (aesKey opt) = [] \<longrightarrow> \<not> isSettingsFileEncrypted opt fname)
         \<and> (encryptedSuffix opt = [] \<longrightarrow> \<not> isSettingsFileEncrypted opt fname)"
proof -
  have "aesKey (fillDefault new_option) \<noteq> Some []"
    by (simp add: fillDefault_def new_option_def)
  with assms have key: "aesKey opt \<noteq> Some []"
    by (rule applyOptfs_aesKey)
  then have "aesKey opt = None \<longleftrightarrow> slice_bytes (aesKey opt) = []"
    by (cases "aesKey opt") (auto simp: slice_bytes_def)
  then show ?thesis
    by (auto simp: isSettingsFileEncrypted_def strings_HasSuffix_iff)
qed

theorem isSettingsFileEncrypted_iff_witness:
  "applyOptfs (fillDefault new_option) [WithAesEncrypt (Some ''secret'')] =
     Inr (new_option\<lparr>aesKey := Some ''secret'', encryptedSuffix := ''.enc''\<rparr>)
   \<and> isSettingsFileEncrypted (new_option\<lparr>aesKey := Some ''secret'', encryptedSuffix := ''.enc''\<rparr>)
        ''settings.yml.enc''
   \<and> \<not> isSettingsFileEncrypted (new_option\<lparr>aesKey := Some ''secret'', encryptedSuffix := ''.enc''\<rparr>)
        ''settings.yml''
   \<and> applyOptfs (fillDefault new_option) [] = Inr (new_option\<lparr>encryptedSuffix := ''.enc''\<rparr>)
   \<and> slice_bytes (aesKey (new_option\<lparr>encryptedSuffix := ''.enc''\<rparr>)) = []
   \<and> \<not> isSettingsFileEncrypted (new_option\<lparr>encryptedSuffix := ''.enc''\<rparr>) ''settings.yml.enc''
   \<and> applyOptfs (fillDefault new_option) [WithAesEncrypt (Some ''secret''), WithEncryptedFileSuffix []] =
       Inr (new_option\<lparr>aesKey := Some ''secret'', encryptedSuffix := []\<rparr>)
   \<and> \<not> isSettingsFileEncrypted (new_option\<lparr>aesKey := Some ''secret'', encryptedSuffix := []\<rparr>)
        ''settings.yml.enc''"
proof -
  let ?opt = "new_option\<lparr>aesKey := Some ''secret'', encryptedSuffix := ''.enc''\<rparr>"
  let ?nokey = "new_option\<lparr>encryptedSuffix := ''.enc''\<rparr>"
  let ?nosuffix = "new_option\<lparr>aesKey := Some ''secret'', encryptedSuffix := []\<rparr>"
  have h: "applyOptfs (fillDefault new_option) [WithAesEncrypt (Some ''secret'')] = Inr ?opt"
    by (simp add: fillDefault_def new_option_def slice_bytes_def defaultEncryptSuffix_def)
  have h0: "applyOptfs (fillDefault new_option) [] = Inr ?nokey"
    by (simp add: fillDefault_def defaultEncryptSuffix_def)
  have h1: "applyOptfs (fillDefault new_option)
              [WithAesEncrypt (Some ''secret''), WithEncryptedFileSuffix []] = Inr ?nosuffix"
    by (simp add: fillDefault_def new_option_def slice_bytes_def)
  have k0: "slice_bytes (aesKey ?nokey) = []"
    by (simp add: new_option_def slice_bytes_def)
  have s1: "encryptedSuffix ?nosuffix = []" by simp
  have yes: "isSettingsFileEncrypted ?opt ''settings.yml.enc''"
    and no: "\<not> isSettingsFileEncrypted ?opt ''settings.yml''"
    using isSettingsFileEncrypted_iff [OF h, of "''settings.yml.enc''"]
      isSettingsFileEncrypted_iff [OF h, of "''settings.yml''"]
    by (simp_all add: slice_bytes_def new_option_def append_eq_append_conv2 Cons_eq_append_conv)
  have nokey: "\<not> isSettingsFileEncrypted ?nokey ''settings.yml.enc''"
    using isSettingsFileEncrypted_iff [OF h0, of "''settings.yml.enc''"] k0 by blast
  have nosuffix: "\<not> isSettingsFileEncrypted ?nosuffix ''settings.yml.enc''"
    using isSettingsFileEncrypted_iff [OF h1, of "''settings.yml.enc''"] s1 by blast
  show ?thesis by (intro conjI h yes no h0 k0 nokey h1 nosuffix)
qed

section \<open>Merging the resolved files\<close>

lemma MergeConfig_result:
  "MergeConfig ext rd s =
     (case unmarshalReader ext (configType (v s)) rd of
        Inl e \<Rightarrow> (Some e, s\<lparr>mu := mu s @ [EvLock, EvStore Writes, EvUnlock]\<rparr>)
      | Inr doc \<Rightarrow>
          (None, s\<lparr>v := (v s)\<lparr>kv := kv (v s) ++ doc\<rparr>,
                    mu := mu s @ [EvLock, EvStore Writes, EvUnlock]\<rparr>))"
  by (simp add: MergeConfig_def viper_MergeConfig_def mu_Lock_def mu_Unlock_def store_call_def
           split: sum.splits)

lemma loadConfigFiles_file_ok:
  assumes "loadConfigFiles_file ext fs opt p s = (None, s')"
  shows "\<exists>doc. file_document ext fs opt (configType (v s)) p = Inr doc
           \<and> s' = s\<lparr>v := (v s)\<lparr>kv := kv (v s) ++ doc\<rparr>,
                     mu := mu s @ [EvLock, EvStore Writes, EvUnlock]\<rparr>"
  using assms
  by (auto simp: loadConfigFiles_file_def file_document_def MergeConfig_result
           split: sum.splits if_splits)

lemma loadConfigFiles_file_failed:
  assumes "loadConfigFiles_file ext fs opt p s = (Some e, s')"
  shows "v s' = v s \<and> watchOnce s' = watchOnce s \<and> watchers s' = watchers s"
  using assms
  by (auto simp: loadConfigFiles_file_def MergeConfig_result split: sum.splits if_splits)

lemma loadConfigFiles_loop_seq:
  "n \<le> length cfgFiles \<Longrightarrow>
   loadConfigFiles_loop ext fs opt cfgFiles n s = merge_seq ext fs opt (rev (take n cfgFiles)) s"
proof (induction n arbitrary: s)
  case 0
  then show ?case by simp
next
  case (Suc n)
  then have "rev (take (Suc n) cfgFiles) = cfgFiles ! n # rev (take n cfgFiles)"
    by (simp add: take_Suc_conv_app_nth)
  with Suc show ?case by (simp split: prod.splits option.splits)
qed

lemma loadConfigFiles_seq:
  "loadConfigFiles ext fs opt cfgFiles s = merge_seq ext fs opt (rev cfgFiles) s"
  by (simp add: loadConfigFiles_def loadConfigFiles_loop_seq)

lemma merge_seq_append:
  "merge_seq ext fs opt (ps @ qs) s =
     (case merge_seq ext fs opt ps s of
        (Some e, s1) \<Rightarrow> (Some e, s1)
      | (None, s1) \<Rightarrow> merge_seq ext fs opt qs s1)"
  by (induction ps arbitrary: s) (auto split: prod.splits option.splits)

lemma merge_seq_ok:
  "merge_seq ext fs opt ps s = (None, s') \<Longrightarrow>
   \<exists>docs. map (file_document ext fs opt (configType (v s))) ps = map Inr docs
      \<and> kv (v s') = foldl (++) (kv (v s)) docs
      \<and> configType (v s') = configType (v s)
      \<and> watchOnce s' = watchOnce s \<and> watchers s' = watchers s"
proof (induction ps arbitrary: s)
  case Nil
  then show ?case by simp
next
  case (Cons p ps)
  from Cons.prems obtain s1 where
    one: "loadConfigFiles_file ext fs opt p s = (None, s1)" and
    rest: "merge_seq ext fs opt ps s1 = (None, s')"
    by (auto split: prod.splits option.splits)
  from loadConfigFiles_file_ok[OF one] obtain doc where
    doc: "file_document ext fs opt (configType (v s)) p = Inr doc" and
    s1: "s1 = s\<lparr>v := (v s)\<lparr>kv := kv (v s) ++ doc\<rparr>,
                  mu := mu s @ [EvLock, EvStore Writes, EvUnlock]\<rparr>"
    by blast
  from Cons.IH[OF rest] obtain docs where
    docs: "map (file_document ext fs opt (configType (v s1))) ps = map Inr docs" and
    kv: "kv (v s') = foldl (++) (kv (v s1)) docs" and
    fr: "configType (v s') = configType (v s1)" "watchOnce s' = watchOnce s1"
        "watchers s' = watchers s1"
    by blast
  have "map (file_document ext fs opt (configType (v s))) (p # ps) = map Inr (doc # docs)"
    using doc docs s1 by simp
  moreover have "kv (v s') = foldl (++) (kv (v s)) (doc # docs)"
    using kv s1 by simp
  ultimately show ?case using fr s1 by (intro exI[of _ "doc # docs"]) simp
qed

lemma overlay_lookup:
  "foldr (\<lambda>d m. m ++ d) ds m key =
     (case find (\<lambda>d. d key \<noteq> None) ds of Some d \<Rightarrow> d key | None \<Rightarrow> m key)"
  by (induction ds) (auto simp: map_add_def split: option.splits)

lemma overlay_dom: "dom (foldr (\<lambda>d m. m ++ d) ds m) = dom m \<union> \<Union> (dom ` set ds)"
  by (induction ds) auto

lemma overlay_foldl: "foldl (++) m (rev ds) = foldr (\<lambda>d m. m ++ d) ds m"
  by (simp add: foldr_conv_foldl)

lemma loadConfigFiles_file_frame:
  "loadConfigFiles_file ext fs opt p s = (r, s') \<Longrightarrow>
   configType (v s') = configType (v s) \<and> watchOnce s' = watchOnce s \<and> watchers s' = watchers s"
  by (auto simp: loadConfigFiles_file_def MergeConfig_result split: sum.splits if_splits)

lemma example_merge:
  "fst (loadConfigFiles example_ext example_fs (fillDefault new_option)
         [''/etc/app/settings.yml'', ''/etc/app/base.yml''] example_store) = None"
  by (simp add: loadConfigFiles_def loadConfigFiles_file_def os_Open_def example_fs_def
        isSettingsFileEncrypted_def fillDefault_def new_option_def MergeConfig_result
        example_store_def store_call_def viper_SetConfigType_def New_def viper_New_def
        example_ext_def example_unmarshalReader_def example_parse_def numeral_2_eq_2)


lemma example_documents:
  "map (file_document example_ext example_fs (fillDefault new_option) ''yml'')
     [''/etc/app/settings.yml'', ''/etc/app/base.yml''] =
   map Inr [map_of [(''include'', IString ''base.yml''), (''a'', IInt 2)],
            map_of [(''a'', IInt 1), (''b'', IInt 1)]]"
  by (simp add: file_document_def os_Open_def example_fs_def
        isSettingsFileEncrypted_def fillDefault_def new_option_def
        example_ext_def example_unmarshalReader_def example_parse_def)

text \<open>
  What a successful \<open>loadConfigFiles\<close> leaves in the store. It merges the files of the
  chain in reverse discovery order: the store holds the overlay of the files' documents in
  which each file overrides the files after it in the chain. So a key has the value of the
  first file in discovery order that defines it, a key no file defines keeps what the
  store held, and the keys of the store are the union of its former keys and the keys of
  all files. Each document is the file parsed under the serialization type the store has
  when \<open>loadConfigFiles\<close> is called, which need not be the file's own type.
\<close>

lemma loadConfigFiles_entry_wins:
  assumes "loadConfigFiles ext fs opt cfgFiles s = (None, s')"
  shows "\<exists>docs. map (file_document ext fs opt (configType (v s))) cfgFiles = map Inr docs
           \<and> kv (v s') = foldr (\<lambda>doc m. m ++ doc) docs (kv (v s))
           \<and> (\<forall>key. kv (v s') key =
                 (case find (\<lambda>doc. doc key \<noteq> None) docs of
                    Some doc \<Rightarrow> doc key
                  | None \<Rightarrow> kv (v s) key))
           \<and> dom (kv (v s')) = dom (kv (v s)) \<union> \<Union> (dom ` set docs)"
proof -
  from assms have "merge_seq ext fs opt (rev cfgFiles) s = (None, s')"
    by (simp add: loadConfigFiles_seq)
  from merge_seq_ok[OF this] obtain ds where
    ds: "map (file_document ext fs opt (configType (v s))) (rev cfgFiles) = map Inr ds" and
    kv: "kv (v s') = foldl (++) (kv (v s)) ds"
    by blast
  let ?docs = "rev ds"
  from ds have "rev (map (file_document ext fs opt (configType (v s))) (rev cfgFiles)) = rev (map Inr ds)"
    by simp
  then have m: "map (file_document ext fs opt (configType (v s))) cfgFiles = map Inr ?docs"
    by (simp add: rev_map)
  have k: "kv (v s') = foldr (\<lambda>doc m. m ++ doc) ?docs (kv (v s))"
    using kv overlay_foldl[of "kv (v s)" "rev ds"] by simp
  show ?thesis
  proof (intro exI[of _ ?docs] conjI allI)
    show "map (file_document ext fs opt (configType (v s))) cfgFiles = map Inr ?docs" by (rule m)
    show "kv (v s') = foldr (\<lambda>doc m. m ++ doc) ?docs (kv (v s))" by (rule k)
    show "kv (v s') key =
            (case find (\<lambda>doc. doc key \<noteq> None) ?docs of
               Some doc \<Rightarrow> doc key
             | None \<Rightarrow> kv (v s) key)" for key
      unfolding k by (rule overlay_lookup)
    show "dom (kv (v s')) = dom (kv (v s)) \<union> \<Union> (dom ` set ?docs)"
      unfolding k by (rule overlay_dom)
  qed
qed

lemma loadConfigFiles_entry_wins_example:
  "fst (loadConfigFiles example_ext example_fs (fillDefault new_option)
         [''/etc/app/settings.yml'', ''/etc/app/base.yml''] example_store) = None
   \<and> map (kv (v (snd (loadConfigFiles example_ext example_fs (fillDefault new_option)
         [''/etc/app/settings.yml'', ''/etc/app/base.yml''] example_store))))
        [''a'', ''b'', ''include'', ''c''] =
       [Some (IInt 2), Some (IInt 1), Some (IString ''base.yml''), None]"
proof -
  let ?files = "[''/etc/app/settings.yml'', ''/etc/app/base.yml'']"
  let ?r = "loadConfigFiles example_ext example_fs (fillDefault new_option) ?files example_store"
  have ok: "fst ?r = None" by (rule example_merge)
  then have h: "?r = (None, snd ?r)" by (metis prod.collapse)
  have ty: "configType (v example_store) = ''yml''"
    by (simp add: example_store_def store_call_def viper_SetConfigType_def)
  have emp: "kv (v example_store) = Map.empty"
    by (simp add: example_store_def store_call_def viper_SetConfigType_def New_def viper_New_def)
  from loadConfigFiles_entry_wins[OF h] obtain docs where
    docs: "map (file_document example_ext example_fs (fillDefault new_option)
                 (configType (v example_store))) ?files = map Inr docs" and
    look: "\<And>key. kv (v (snd ?r)) key =
             (case find (\<lambda>doc. doc key \<noteq> None) docs of
                Some doc \<Rightarrow> doc key
              | None \<Rightarrow> kv (v example_store) key)"
    by blast
  from docs have "map Inr docs = (map Inr [map_of [(''include'', IString ''base.yml''), (''a'', IInt 2)],
            map_of [(''a'', IInt 1), (''b'', IInt 1)]] :: (error + document) list)"
    unfolding ty example_documents by simp
  then have d: "docs = [map_of [(''include'', IString ''base.yml''), (''a'', IInt 2)],
            map_of [(''a'', IInt 1), (''b'', IInt 1)]]"
    by (auto simp: map_eq_Cons_conv)
  show ?thesis
    using ok by (simp add: look d emp)
qed

lemma example_merge_base:
  "fst (loadConfigFiles example_ext example_fs (fillDefault new_option)
         [''/etc/app/base.yml''] example_store) = None"
  by (simp add: loadConfigFiles_def loadConfigFiles_file_def os_Open_def example_fs_def
        isSettingsFileEncrypted_def fillDefault_def new_option_def MergeConfig_result
        example_store_def store_call_def viper_SetConfigType_def New_def viper_New_def
        example_ext_def example_unmarshalReader_def example_parse_def)

lemma example_merge_base_kv:
  "map (kv (v (snd (loadConfigFiles example_ext example_fs (fillDefault new_option)
         [''/etc/app/base.yml''] example_store)))) [''a'', ''b'', ''include''] =
   [Some (IInt 1), Some (IInt 1), None]"
  by (simp add: loadConfigFiles_def loadConfigFiles_file_def os_Open_def example_fs_def
        isSettingsFileEncrypted_def fillDefault_def new_option_def MergeConfig_result
        example_store_def store_call_def viper_SetConfigType_def New_def viper_New_def
        example_ext_def example_unmarshalReader_def example_parse_def)

lemma example_merge_missing:
  "fst (loadConfigFiles_file example_ext example_fs (fillDefault new_option)
         ''/etc/app/missing.yml'' s) =
   Some (Wrapf (External ''open /etc/app/missing.yml: no such file or directory'')
           ''open config file `/etc/app/missing.yml`'')"
  by (simp add: loadConfigFiles_file_def os_Open_def example_fs_def)

text \<open>
  Claim C7. When \<open>loadConfigFiles\<close> fails at a file of the chain, it returns the error of
  that file at once: the files after it in the chain (processed before it) have been
  merged and stay merged, the store is exactly what those merges produced (the failing
  merge changes nothing and nothing is rolled back), and the files before it in the
  chain are never merged, whatever they are.
\<close>

theorem loadConfigFiles_first_failure:
  assumes "loadConfigFiles ext fs opt post s = (None, s1)"
    and "loadConfigFiles_file ext fs opt f s1 = (Some e, s2)"
  shows "loadConfigFiles ext fs opt (pre @ f # post) s = (Some e, s2) \<and> v s2 = v s1"
proof -
  from assms(1) have p: "merge_seq ext fs opt (rev post) s = (None, s1)"
    by (simp add: loadConfigFiles_seq)
  have "merge_seq ext fs opt (rev post @ f # rev pre) s = (Some e, s2)"
    by (simp add: merge_seq_append p assms(2))
  then have "loadConfigFiles ext fs opt (pre @ f # post) s = (Some e, s2)"
    by (simp add: loadConfigFiles_seq)
  moreover have "v s2 = v s1"
    using loadConfigFiles_file_failed[OF assms(2)] by simp
  ultimately show ?thesis by simp
qed

theorem loadConfigFiles_first_failure_witness:
  "fst (loadConfigFiles example_ext example_fs (fillDefault new_option)
         [''/etc/app/settings.yml'', ''/etc/app/missing.yml'', ''/etc/app/base.yml'']
         example_store) =
     Some (Wrapf (External ''open /etc/app/missing.yml: no such file or directory'')
             ''open config file `/etc/app/missing.yml`'')
   \<and> map (kv (v (snd (loadConfigFiles example_ext example_fs (fillDefault new_option)
         [''/etc/app/settings.yml'', ''/etc/app/missing.yml'', ''/etc/app/base.yml'']
         example_store)))) [''a'', ''b'', ''include''] =
       [Some (IInt 1), Some (IInt 1), None]"
proof -
  let ?opt = "fillDefault new_option"
  let ?post = "loadConfigFiles example_ext example_fs ?opt [''/etc/app/base.yml''] example_store"
  let ?f = "loadConfigFiles_file example_ext example_fs ?opt ''/etc/app/missing.yml'' (snd ?post)"
  let ?e = "Wrapf (External ''open /etc/app/missing.yml: no such file or directory'')
             ''open config file `/etc/app/missing.yml`''"
  have h1: "?post = (None, snd ?post)"
    using example_merge_base by (metis prod.collapse)
  have h2: "?f = (Some ?e, snd ?f)"
    using example_merge_missing[of "snd ?post"] by (metis prod.collapse)
  from loadConfigFiles_first_failure[OF h1 h2, of "[''/etc/app/settings.yml'']"]
  have r: "loadConfigFiles example_ext example_fs ?opt
             [''/etc/app/settings.yml'', ''/etc/app/missing.yml'', ''/etc/app/base.yml'']
             example_store = (Some ?e, snd ?f)"
    and st: "v (snd ?f) = v (snd ?post)"
    by simp_all
  show ?thesis
    unfolding r using st example_merge_base_kv by simp
qed

section \<open>Resolving the include chain\<close>

lemma ReadConfig_result:
  "ReadConfig ext rd s =
     (case unmarshalReader ext (configType (v s)) rd of
        Inl e \<Rightarrow> (Some e, s\<lparr>v := (v s)\<lparr>kv := Map.empty\<rparr>,
                             mu := mu s @ [EvLock, EvStore Writes, EvUnlock]\<rparr>)
      | Inr doc \<Rightarrow>
          (None, s\<lparr>v := (v s)\<lparr>kv := doc\<rparr>,
                    mu := mu s @ [EvLock, EvStore Writes, EvUnlock]\<rparr>))"
  by (simp add: ReadConfig_def viper_ReadConfig_def mu_Lock_def mu_Unlock_def store_call_def
           split: sum.splits)

lemma GetString_result:
  "GetString ext key s =
     (viper_GetString ext key (v s), s\<lparr>mu := mu s @ [EvRLock, EvStore Reads, EvRUnlock]\<rparr>)"
  by (simp add: GetString_def mu_RLock_def mu_RUnlock_def store_call_def Let_def)

lemma LoadFromFile_read_ok:
  assumes "LoadFromFile_read ext fs opt p s = (None, s1)"
  shows "\<exists>doc. file_document ext fs opt (configTypeOf opt p) p = Inr doc
           \<and> s1 = s\<lparr>v := \<lparr>kv = doc, configType = configTypeOf opt p\<rparr>,
                     mu := mu s @ [EvStore Writes, EvLock, EvStore Writes, EvUnlock]\<rparr>"
  using assms
  by (auto simp: LoadFromFile_read_def file_document_def ReadConfig_result store_call_def
        viper_SetConfigType_def Let_def split: sum.splits if_splits)

lemma LoadFromFile_read_frame:
  "LoadFromFile_read ext fs opt p s = (r, s1) \<Longrightarrow>
   watchOnce s1 = watchOnce s \<and> watchers s1 = watchers s"
  by (auto simp: LoadFromFile_read_def ReadConfig_result store_call_def
        viper_SetConfigType_def Let_def split: sum.splits if_splits)

lemma LoadFromFile_read_None_iff:
  "fst (LoadFromFile_read ext fs opt p s) = None \<longleftrightarrow>
   (\<exists>doc. file_document ext fs opt (configTypeOf opt p) p = Inr doc)"
  by (auto simp: LoadFromFile_read_def file_document_def ReadConfig_result store_call_def
        viper_SetConfigType_def Let_def split: sum.splits if_splits)

lemma file_document_dom:
  "file_document ext fs opt ty p = Inr doc \<Longrightarrow> p \<in> fst ` set fs"
  by (auto simp: file_document_def split: sum.splits dest: os_Open_Inr_dom)

lemma include_after_read:
  assumes "LoadFromFile_read ext fs opt p s = (None, s1)"
  shows "fst (GetString ext settingsIncludeKey s1) = include_of ext fs opt p"
proof -
  from LoadFromFile_read_ok[OF assms] obtain doc where
    "file_document ext fs opt (configTypeOf opt p) p = Inr doc"
    "v s1 = \<lparr>kv = doc, configType = configTypeOf opt p\<rparr>"
    by auto
  then show ?thesis by (simp add: GetString_result include_of_def)
qed



lemma loads_iff: "loads ext fs opt p \<longleftrightarrow> fst (LoadFromFile_read ext fs opt p s) = None"
  by (simp add: loads_def LoadFromFile_read_None_iff split: sum.splits)

lemma loads_dom: "loads ext fs opt p \<Longrightarrow> p \<in> fst ` set fs"
  by (auto simp: loads_def split: sum.splits dest: file_document_dom)

lemma loop_step:
  "RECUR_INCLUDE_LOOP ext fs opt dir cur files s =
     (case LoadFromFile_read ext fs opt cur s of
        (Some e, s1) \<Rightarrow> (Inl e, s1)
      | (None, s1) \<Rightarrow>
          (let inc = include_of ext fs opt cur;
               s2 = snd (GetString ext settingsIncludeKey s1)
           in if inc = [] \<or> filepath_Join dir inc \<in> set files then (Inr files, s2)
              else RECUR_INCLUDE_LOOP ext fs opt dir (filepath_Join dir inc)
                     (files @ [filepath_Join dir inc]) s2))"
proof (cases "LoadFromFile_read ext fs opt cur s")
  case (Pair r s1)
  show ?thesis
  proof (cases r)
    case None
    with Pair have rd: "LoadFromFile_read ext fs opt cur s = (None, s1)" by simp
    obtain inc s2 where gs: "GetString ext settingsIncludeKey s1 = (inc, s2)" by fastforce
    with include_after_read[OF rd] have inc: "inc = include_of ext fs opt cur" by simp
    show ?thesis
      by (subst RECUR_INCLUDE_LOOP.simps) (simp add: rd gs inc[symmetric] Let_def)
  next
    case (Some e)
    with Pair show ?thesis by (subst RECUR_INCLUDE_LOOP.simps) simp
  qed
qed

lemma GetString_frame:
  "watchOnce (snd (GetString ext key s)) = watchOnce s \<and>
   watchers (snd (GetString ext key s)) = watchers s \<and>
   v (snd (GetString ext key s)) = v s"
  by (simp add: GetString_result)

lemma loop_sound:
  "RECUR_INCLUDE_LOOP ext fs opt dir cur files s = (Inr chain, s') \<Longrightarrow>
   \<exists>more. chain = files @ more
      \<and> links (include_of ext fs opt) dir cur more
      \<and> set more \<inter> set files = {} \<and> distinct more
      \<and> list_all (loads ext fs opt) (cur # more)
      \<and> (include_of ext fs opt (last (cur # more)) = [] \<or>
           filepath_Join dir (include_of ext fs opt (last (cur # more))) \<in> set chain)
      \<and> watchOnce s' = watchOnce s \<and> watchers s' = watchers s
      \<and> v s' = \<lparr>kv = (case file_document ext fs opt (configTypeOf opt (last (cur # more)))
                           (last (cur # more)) of Inl e \<Rightarrow> Map.empty | Inr doc \<Rightarrow> doc),
                 configType = configTypeOf opt (last (cur # more))\<rparr>"
proof (induction ext fs opt dir cur files s arbitrary: chain s' rule: RECUR_INCLUDE_LOOP.induct)
  case (1 ext fs opt dir cur files s)
  obtain r s1 where rd: "LoadFromFile_read ext fs opt cur s = (r, s1)" by fastforce
  show ?case
  proof (cases r)
    case (Some e)
    with rd "1.prems" show ?thesis by (simp add: loop_step)
  next
    case None
    note rd = rd[unfolded None]
    let ?inc = "include_of ext fs opt cur"
    let ?n = "filepath_Join dir ?inc"
    obtain inc s2 where gs: "GetString ext settingsIncludeKey s1 = (inc, s2)" by fastforce
    with include_after_read[OF rd] have inc: "inc = ?inc" by simp
    have ld: "loads ext fs opt cur"
      using rd loads_iff[of ext fs opt cur s] by simp
    from LoadFromFile_read_ok[OF rd] obtain doc where
      doc: "file_document ext fs opt (configTypeOf opt cur) cur = Inr doc" and
      vs1: "v s1 = \<lparr>kv = doc, configType = configTypeOf opt cur\<rparr>"
      by auto
    have fr: "watchOnce s2 = watchOnce s \<and> watchers s2 = watchers s \<and> v s2 = v s1"
      using LoadFromFile_read_frame[OF rd] GetString_frame[of ext settingsIncludeKey s1] gs
      by simp
    show ?thesis
    proof (cases "?inc = [] \<or> ?n \<in> set files")
      case True
      with rd gs "1.prems" have "chain = files" "s' = s2"
        by (simp_all add: loop_step Let_def)
      with True ld fr doc vs1 show ?thesis by (intro exI[of _ "[]"]) auto
    next
      case False
      with rd gs "1.prems" have
        rec: "RECUR_INCLUDE_LOOP ext fs opt dir ?n (files @ [?n]) s2 = (Inr chain, s')"
        by (simp add: loop_step Let_def)
      from False have "inc \<noteq> []" "filepath_Join dir inc \<notin> set files"
        using inc by simp_all
      from "1.IH"[OF rd[symmetric] refl gs[symmetric] this, unfolded inc, OF rec]
      obtain more where
        m: "chain = (files @ [?n]) @ more"
           "links (include_of ext fs opt) dir ?n more"
           "set more \<inter> set (files @ [?n]) = {}" "distinct more"
           "list_all (loads ext fs opt) (?n # more)"
           "include_of ext fs opt (last (?n # more)) = [] \<or>
            filepath_Join dir (include_of ext fs opt (last (?n # more))) \<in> set chain"
           "watchOnce s' = watchOnce s2" "watchers s' = watchers s2"
           "v s' = \<lparr>kv = (case file_document ext fs opt (configTypeOf opt (last (?n # more)))
                           (last (?n # more)) of Inl e \<Rightarrow> Map.empty | Inr doc \<Rightarrow> doc),
                 configType = configTypeOf opt (last (?n # more))\<rparr>"
        by blast
      show ?thesis
      proof (intro exI[of _ "?n # more"] conjI)
        show "chain = files @ ?n # more" using m(1) by simp
        show "links (include_of ext fs opt) dir cur (?n # more)" using m(2) False by simp
        show "set (?n # more) \<inter> set files = {}" using m(3) False by auto
        show "distinct (?n # more)" using m(3,4) by auto
        show "list_all (loads ext fs opt) (cur # ?n # more)" using m(5) ld by simp
        show "include_of ext fs opt (last (cur # ?n # more)) = [] \<or>
              filepath_Join dir (include_of ext fs opt (last (cur # ?n # more))) \<in> set chain"
          using m(6) by simp
        show "watchOnce s' = watchOnce s" using m(7) fr by simp
        show "watchers s' = watchers s" using m(8) fr by simp
        show "v s' = \<lparr>kv = (case file_document ext fs opt (configTypeOf opt (last (cur # ?n # more)))
                           (last (cur # ?n # more)) of Inl e \<Rightarrow> Map.empty | Inr doc \<Rightarrow> doc),
                 configType = configTypeOf opt (last (cur # ?n # more))\<rparr>"
          using m(9) by simp
      qed
    qed
  qed
qed


lemma loop_complete:
  "links (include_of ext fs opt) dir cur rest \<Longrightarrow> distinct rest \<Longrightarrow>
   set rest \<inter> set files = {} \<Longrightarrow> list_all (loads ext fs opt) (cur # rest) \<Longrightarrow>
   include_of ext fs opt (last (cur # rest)) = [] \<or>
     filepath_Join dir (include_of ext fs opt (last (cur # rest))) \<in> set (files @ rest) \<Longrightarrow>
   fst (RECUR_INCLUDE_LOOP ext fs opt dir cur files s) = Inr (files @ rest)"
proof (induction rest arbitrary: cur files s)
  case Nil
  then have "fst (LoadFromFile_read ext fs opt cur s) = None"
    using loads_iff[of ext fs opt cur s] by simp
  then obtain s1 where "LoadFromFile_read ext fs opt cur s = (None, s1)"
    by (metis prod.collapse)
  with Nil show ?case by (simp add: loop_step Let_def)
next
  case (Cons n rest)
  let ?n = "filepath_Join dir (include_of ext fs opt cur)"
  from Cons.prems(1) have n1: "n = ?n" "include_of ext fs opt cur \<noteq> []"
    and lk: "links (include_of ext fs opt) dir n rest"
    by auto
  from Cons.prems(3) have "n \<notin> set files" by simp
  with n1 have n: "n = ?n" "include_of ext fs opt cur \<noteq> []" "?n \<notin> set files"
    by simp_all
  from Cons.prems have "fst (LoadFromFile_read ext fs opt cur s) = None"
    using loads_iff[of ext fs opt cur s] by simp
  then obtain s1 where rd: "LoadFromFile_read ext fs opt cur s = (None, s1)"
    by (metis prod.collapse)
  let ?s2 = "snd (GetString ext settingsIncludeKey s1)"
  have step: "RECUR_INCLUDE_LOOP ext fs opt dir cur files s =
              RECUR_INCLUDE_LOOP ext fs opt dir n (files @ [n]) ?s2"
    using rd n by (simp add: loop_step Let_def)
  have "fst (RECUR_INCLUDE_LOOP ext fs opt dir n (files @ [n]) ?s2) = Inr ((files @ [n]) @ rest)"
  proof (rule Cons.IH)
    show "links (include_of ext fs opt) dir n rest" by (rule lk)
    show "distinct rest" using Cons.prems(2) by simp
    show "set rest \<inter> set (files @ [n]) = {}" using Cons.prems(2,3) by auto
    show "list_all (loads ext fs opt) (n # rest)" using Cons.prems(4) by simp
    show "include_of ext fs opt (last (n # rest)) = [] \<or>
          filepath_Join dir (include_of ext fs opt (last (n # rest))) \<in> set ((files @ [n]) @ rest)"
      using Cons.prems(5) by simp
  qed
  with step show ?case by simp
qed

lemma distinct_loads_length:
  assumes "distinct chain" "list_all (loads ext fs opt) chain"
  shows "length chain \<le> length fs"
proof -
  have "set chain \<subseteq> fst ` set fs"
    using assms(2) by (auto simp: list_all_iff dest: loads_dom)
  then have "card (set chain) \<le> card (fst ` set fs)"
    by (simp add: card_mono)
  also have "\<dots> \<le> card (set fs)" by (simp add: card_image_le)
  also have "\<dots> \<le> length fs" by (rule card_length)
  finally show ?thesis using assms(1) by (simp add: distinct_card)
qed

text \<open>
  Claim C3. The include loop terminates on every input (\<open>RECUR_INCLUDE_LOOP\<close> is a total
  function: each pass either fails, stops, or adds a path that was not in the list, and
  every path it opens exists in the finite file system). It returns a chain exactly when:
  the chain starts with the entry file; every later path is the entry file's directory
  joined with the non-empty include value of the path before it; no path occurs twice;
  every file of the chain loads; and the include value of the last file is empty or
  resolves to a path already in the chain. In the last case the loop stops without an
  error and the path is not appended. A returned chain is no longer than the number of
  files, and \<open>LoadFromFile\<close> then merges exactly the files of this chain.
\<close>

theorem include_resolution:
  "(fst (RECUR_INCLUDE_LOOP ext fs opt (filepath_Dir entryFile) entryFile [entryFile] s) = Inr chain
      \<longleftrightarrow>
    (\<exists>more. chain = entryFile # more
       \<and> links (include_of ext fs opt) (filepath_Dir entryFile) entryFile more
       \<and> distinct chain
       \<and> list_all (loads ext fs opt) chain
       \<and> (include_of ext fs opt (last chain) = [] \<or>
            filepath_Join (filepath_Dir entryFile) (include_of ext fs opt (last chain))
              \<in> set chain)))
   \<and> (fst (RECUR_INCLUDE_LOOP ext fs opt (filepath_Dir entryFile) entryFile [entryFile] s) = Inr chain
        \<longrightarrow> length chain \<le> length fs
          \<and> (\<forall>opts. gutils_IsFile fs entryFile = Inr True
                 \<and> applyOptfs (fillDefault new_option) opts = Inr opt
               \<longrightarrow> fst (LoadFromFile ext fs entryFile opts s) =
                     fst (loadConfigFiles ext fs opt chain
                            (snd (RECUR_INCLUDE_LOOP ext fs opt (filepath_Dir entryFile) entryFile
                                    [entryFile] s)))
                 \<and> v (snd (LoadFromFile ext fs entryFile opts s)) =
                     v (snd (loadConfigFiles ext fs opt chain
                            (snd (RECUR_INCLUDE_LOOP ext fs opt (filepath_Dir entryFile) entryFile
                                    [entryFile] s))))))"
proof -
  let ?dir = "filepath_Dir entryFile"
  let ?loop = "RECUR_INCLUDE_LOOP ext fs opt ?dir entryFile [entryFile] s"
  let ?R = "\<exists>more. chain = entryFile # more
       \<and> links (include_of ext fs opt) ?dir entryFile more
       \<and> distinct chain
       \<and> list_all (loads ext fs opt) chain
       \<and> (include_of ext fs opt (last chain) = [] \<or>
            filepath_Join ?dir (include_of ext fs opt (last chain)) \<in> set chain)"
  have sound: "?R" if "fst ?loop = Inr chain"
  proof -
    from that have "?loop = (Inr chain, snd ?loop)" by (metis prod.collapse)
    from loop_sound[OF this] obtain more where
      m: "chain = [entryFile] @ more" "links (include_of ext fs opt) ?dir entryFile more"
         "set more \<inter> set [entryFile] = {}" "distinct more"
         "list_all (loads ext fs opt) (entryFile # more)"
         "include_of ext fs opt (last (entryFile # more)) = [] \<or>
          filepath_Join ?dir (include_of ext fs opt (last (entryFile # more))) \<in> set chain"
      by blast
    show ?thesis
      using m by (intro exI[of _ more]) auto
  qed
  have complete: "fst ?loop = Inr chain" if "?R"
  proof -
    from that obtain more where
      m: "chain = entryFile # more" "links (include_of ext fs opt) ?dir entryFile more"
         "distinct chain" "list_all (loads ext fs opt) chain"
         "include_of ext fs opt (last chain) = [] \<or>
          filepath_Join ?dir (include_of ext fs opt (last chain)) \<in> set chain"
      by blast
    have "fst ?loop = Inr ([entryFile] @ more)"
    proof (rule loop_complete)
      show "links (include_of ext fs opt) ?dir entryFile more" by (rule m(2))
      show "distinct more" using m(1,3) by simp
      show "set more \<inter> set [entryFile] = {}" using m(1,3) by simp
      show "list_all (loads ext fs opt) (entryFile # more)" using m(1,4) by simp
      show "include_of ext fs opt (last (entryFile # more)) = [] \<or>
            filepath_Join ?dir (include_of ext fs opt (last (entryFile # more)))
              \<in> set ([entryFile] @ more)"
        using m(1,5) by simp
    qed
    with m(1) show ?thesis by simp
  qed
  have bound: "length chain \<le> length fs" if "fst ?loop = Inr chain"
    using sound[OF that] by (auto intro: distinct_loads_length)
  have merged: "fst (LoadFromFile ext fs entryFile opts s) =
                  fst (loadConfigFiles ext fs opt chain (snd ?loop))
                \<and> v (snd (LoadFromFile ext fs entryFile opts s)) =
                  v (snd (loadConfigFiles ext fs opt chain (snd ?loop)))"
    if l: "fst ?loop = Inr chain" and f: "gutils_IsFile fs entryFile = Inr True"
      and o: "applyOptfs (fillDefault new_option) opts = Inr opt" for opts
  proof -
    from l obtain s1 where lp: "?loop = (Inr chain, s1)" by (metis prod.collapse)
    then have s1: "snd ?loop = s1" by simp
    obtain r s2 where m: "loadConfigFiles ext fs opt chain s1 = (r, s2)" by fastforce
    show ?thesis
    proof (cases r)
      case None
      have "v (watch ext opt entryFile chain opts s2) = v s2"
        by (simp add: watch_def split: option.splits)
      with None m f o lp show ?thesis
        unfolding s1 by (simp add: LoadFromFile_def)
    next
      case (Some e)
      with m f o lp show ?thesis unfolding s1 by (simp add: LoadFromFile_def)
    qed
  qed
  show ?thesis using sound complete bound merged by blast
qed

theorem include_resolution_witness:
  "fst (RECUR_INCLUDE_LOOP example_ext example_fs (fillDefault new_option)
          (filepath_Dir ''/etc/app/ping.yml'') ''/etc/app/ping.yml'' [''/etc/app/ping.yml''] New)
     = Inr [''/etc/app/ping.yml'', ''/etc/app/inc/pong.yml'']
   \<and> include_of example_ext example_fs (fillDefault new_option) ''/etc/app/inc/pong.yml''
       = ''ping.yml''
   \<and> length [''/etc/app/ping.yml'', ''/etc/app/inc/pong.yml''] \<le> length example_fs
   \<and> fst (LoadFromFile example_ext example_fs ''/etc/app/ping.yml'' [] New) =
       fst (loadConfigFiles example_ext example_fs (fillDefault new_option)
              [''/etc/app/ping.yml'', ''/etc/app/inc/pong.yml'']
              (snd (RECUR_INCLUDE_LOOP example_ext example_fs (fillDefault new_option)
                      (filepath_Dir ''/etc/app/ping.yml'') ''/etc/app/ping.yml''
                      [''/etc/app/ping.yml''] New)))
   \<and> fst (LoadFromFile example_ext example_fs ''/etc/app/ping.yml'' [] New) = None
   \<and> map (kv (v (snd (LoadFromFile example_ext example_fs ''/etc/app/ping.yml'' [] New))))
         [''x'', ''y''] = [Some (IInt 1), Some (IInt 2)]"
proof -
  let ?ping = "''/etc/app/ping.yml''"
  let ?pong = "''/etc/app/inc/pong.yml''"
  let ?opt = "fillDefault new_option"
  let ?chain = "[?ping, ?pong]"
  have l: "links (include_of example_ext example_fs ?opt) (filepath_Dir ?ping) ?ping [?pong]"
    by code_simp
  have d: "distinct ?chain" by simp
  have a: "list_all (loads example_ext example_fs ?opt) ?chain" by code_simp
  have i: "include_of example_ext example_fs ?opt ?pong = ''ping.yml''" by code_simp
  have c: "filepath_Join (filepath_Dir ?ping) ''ping.yml'' = ?ping" by code_simp
  have st: "include_of example_ext example_fs ?opt (last ?chain) = [] \<or>
            filepath_Join (filepath_Dir ?ping) (include_of example_ext example_fs ?opt (last ?chain))
              \<in> set ?chain"
    by (simp add: i c)
  have ex: "\<exists>more. ?chain = ?ping # more
       \<and> links (include_of example_ext example_fs ?opt) (filepath_Dir ?ping) ?ping more
       \<and> distinct ?chain
       \<and> list_all (loads example_ext example_fs ?opt) ?chain
       \<and> (include_of example_ext example_fs ?opt (last ?chain) = [] \<or>
            filepath_Join (filepath_Dir ?ping) (include_of example_ext example_fs ?opt (last ?chain))
              \<in> set ?chain)"
    by (rule exI[of _ "[?pong]"]) (intro conjI refl l d a st)
  note t = include_resolution[of example_ext example_fs ?opt ?ping New ?chain]
  from t[THEN conjunct1, THEN iffD2, OF ex]
  have r: "fst (RECUR_INCLUDE_LOOP example_ext example_fs ?opt (filepath_Dir ?ping) ?ping
                        [?ping] New) = Inr ?chain" .
  have f: "gutils_IsFile example_fs ?ping = Inr True" by code_simp
  have o: "applyOptfs ?opt [] = Inr ?opt" by simp
  note u = t[THEN conjunct2, THEN mp, OF r]
  from u[THEN conjunct1] have b: "length ?chain \<le> length example_fs" .
  from u[THEN conjunct2, THEN spec, of "[]", THEN mp, OF conjI[OF f o], THEN conjunct1]
  have m: "fst (LoadFromFile example_ext example_fs ?ping [] New) =
       fst (loadConfigFiles example_ext example_fs ?opt ?chain
              (snd (RECUR_INCLUDE_LOOP example_ext example_fs ?opt (filepath_Dir ?ping) ?ping
                      [?ping] New)))" .
  have n: "fst (LoadFromFile example_ext example_fs ?ping [] New) = None" by code_simp
  have k: "map (kv (v (snd (LoadFromFile example_ext example_fs ?ping [] New))))
         [''x'', ''y''] = [Some (IInt 1), Some (IInt 2)]" by code_simp
  show ?thesis by (intro conjI r i b m n k)
qed

section \<open>Arming the watch once\<close>













section \<open>Reading a string from the fetched configuration\<close>

lemma lacks_simps:
  "lacks name None = False"
  "lacks name (Some src) = (Get_range (Source src) name = None)"
  by (simp_all add: lacks_def)

lemma Get_sources_first:
  "list_all (lacks name) pre \<Longrightarrow> Get_range (Source src) name = Some val \<Longrightarrow>
   Get_sources (pre @ Some src # post) name = Return (val, True)"
proof (induction pre)
  case Nil
  then show ?case by simp
next
  case (Cons a pre)
  then show ?case by (cases a) (simp_all add: lacks_simps)
qed

lemma Get_sources_absent:
  "list_all (lacks name) srcs \<Longrightarrow> Get_sources srcs name = Return (INil, False)"
proof (induction srcs)
  case Nil
  then show ?case by simp
next
  case (Cons a srcs)
  then show ?case by (cases a) (simp_all add: lacks_simps)
qed

lemma Get_sources_Return:
  "Get_sources srcs name = Return (val, ok) \<Longrightarrow>
     (\<not> ok \<and> val = INil \<and> list_all (lacks name) srcs)
   \<or> (ok \<and> (\<exists>pre src post. srcs = pre @ Some src # post \<and> list_all (lacks name) pre
               \<and> Get_range (Source src) name = Some val))"
proof (induction srcs)
  case Nil
  then show ?case by simp
next
  case (Cons p srcs)
  show ?case
  proof (cases p)
    case None
    with Cons.prems show ?thesis by simp
  next
    case (Some src)
    show ?thesis
    proof (cases "Get_range (Source src) name")
      case None
      with Some Cons.prems have "Get_sources srcs name = Return (val, ok)" by simp
      from Cons.IH[OF this] show ?thesis
      proof
        assume "\<not> ok \<and> val = INil \<and> list_all (lacks name) srcs"
        with None Some show ?thesis by (simp add: lacks_simps)
      next
        assume "ok \<and> (\<exists>pre src post. srcs = pre @ Some src # post \<and> list_all (lacks name) pre
               \<and> Get_range (Source src) name = Some val)"
        then obtain pre src' post where
          ok: "ok" and e: "srcs = pre @ Some src' # post" "list_all (lacks name) pre"
            "Get_range (Source src') name = Some val"
          by blast
        have "p # srcs = (p # pre) @ Some src' # post" using e(1) by simp
        moreover have "list_all (lacks name) (p # pre)" using e(2) None Some by (simp add: lacks_simps)
        ultimately show ?thesis using ok e(3) by blast
      qed
    next
      case (Some x)
      with \<open>p = Some src\<close> Cons.prems have "val = x" "ok" by simp_all
      moreover have "p # srcs = [] @ Some src # srcs" using \<open>p = Some src\<close> by simp
      moreover have "list_all (lacks name) []" by simp
      ultimately show ?thesis using Some by blast
    qed
  qed
qed

text \<open>
  Claim C10, as amended. \<open>Get\<close> returns the value of the first source, in the order of
  \<^verbatim>\<open>propertySources\<close>, that has the key. When that value is not a string (and no nil
  source comes before it), \<open>GetString\<close> panics on the type assertion instead of
  returning; when it is a string, \<open>GetString\<close> returns it. \<open>GetString\<close> returns
  normally only when no source has the key (the result is the empty string and false) or
  the first source that has it maps it to a string. A later source that maps the key to
  something else does not matter.
\<close>

theorem GetString_first_definition:
  "(Sources (RemoteCfg c) = pre @ Some src # post \<and> list_all (lacks name) pre
      \<and> Get_range (Source src) name = Some val
    \<longrightarrow> SpringConfigServer_GetString c name =
          (case val of IString str \<Rightarrow> Return (str, True) | _ \<Rightarrow> Panic InterfaceConversion))
   \<and> (SpringConfigServer_GetString c name = Return (str, ok)
    \<longrightarrow> (\<not> ok \<and> str = [] \<and> list_all (lacks name) (Sources (RemoteCfg c)))
       \<or> (ok \<and> (\<exists>pre src post. Sources (RemoteCfg c) = pre @ Some src # post
                  \<and> list_all (lacks name) pre
                  \<and> Get_range (Source src) name = Some (IString str))))"
proof (intro conjI impI)
  assume "Sources (RemoteCfg c) = pre @ Some src # post \<and> list_all (lacks name) pre
      \<and> Get_range (Source src) name = Some val"
  then have "SpringConfigServer_Get c name = Return (val, True)"
    by (simp add: SpringConfigServer_Get_def Get_sources_first)
  then show "SpringConfigServer_GetString c name =
          (case val of IString str \<Rightarrow> Return (str, True) | _ \<Rightarrow> Panic InterfaceConversion)"
    by (simp add: SpringConfigServer_GetString_def split: iface.splits)
next
  assume r: "SpringConfigServer_GetString c name = Return (str, ok)"
  then obtain val ok' where g: "Get_sources (Sources (RemoteCfg c)) name = Return (val, ok')"
    by (auto simp: SpringConfigServer_GetString_def SpringConfigServer_Get_def
             split: outcome.splits)
  show "(\<not> ok \<and> str = [] \<and> list_all (lacks name) (Sources (RemoteCfg c)))
       \<or> (ok \<and> (\<exists>pre src post. Sources (RemoteCfg c) = pre @ Some src # post
                  \<and> list_all (lacks name) pre
                  \<and> Get_range (Source src) name = Some (IString str)))"
  proof (cases ok')
    case False
    with r g have "\<not> ok" "str = []"
      by (simp_all add: SpringConfigServer_GetString_def SpringConfigServer_Get_def)
    moreover from Get_sources_Return[OF g] False have "list_all (lacks name) (Sources (RemoteCfg c))"
      by simp
    ultimately show ?thesis by simp
  next
    case True
    with r g have v: "val = IString str" "ok"
      by (auto simp: SpringConfigServer_GetString_def SpringConfigServer_Get_def
               split: iface.splits)
    from Get_sources_Return[OF g] True v show ?thesis by simp
  qed
qed

theorem GetString_first_definition_witness:
  "SpringConfigServer_GetString example_srv ''port'' = Panic InterfaceConversion
   \<and> SpringConfigServer_GetString example_srv ''raw'' = Return (''a: 1'', True)
   \<and> (\<exists>pre src post. Sources (RemoteCfg example_srv) = pre @ Some src # post
         \<and> list_all (lacks ''raw'') pre
         \<and> Get_range (Source src) ''raw'' = Some (IString ''a: 1''))"
proof -
  let ?first = "\<lparr>Name = ''first'', Source = [(''raw'', IString ''a: 1'')]\<rparr>"
  let ?second = "\<lparr>Name = ''second'', Source = [(''raw'', IInt 5), (''port'', IInt 8080)]\<rparr>"
  have h: "Sources (RemoteCfg example_srv) = [Some ?first] @ Some ?second # []
           \<and> list_all (lacks ''port'') [Some ?first]
           \<and> Get_range (Source ?second) ''port'' = Some (IInt 8080)"
    by (simp add: example_srv_def lacks_simps)
  from GetString_first_definition[of example_srv "[Some ?first]" ?second "[]" "''port''"
         "IInt 8080" "''a: 1''" True, THEN conjunct1, THEN mp, OF h]
  have p: "SpringConfigServer_GetString example_srv ''port'' = Panic InterfaceConversion"
    by simp
  have r: "SpringConfigServer_GetString example_srv ''raw'' = Return (''a: 1'', True)"
    by code_simp
  from GetString_first_definition[of example_srv "[]" ?first "[]" "''raw''"
         "INil" "''a: 1''" True, THEN conjunct2, THEN mp, OF r]
  have e: "\<exists>pre src post. Sources (RemoteCfg example_srv) = pre @ Some src # post
         \<and> list_all (lacks ''raw'') pre
         \<and> Get_range (Source src) ''raw'' = Some (IString ''a: 1'')"
    by simp
  show ?thesis by (intro conjI p r e)
qed

text \<open>
  Claim C10 as stated fails: in \<open>example_srv\<close> the second source maps the key \<^verbatim>\<open>raw\<close> to an
  integer, yet \<open>GetString\<close> returns the string of the first source and does not panic.
\<close>

theorem GetString_later_source_counterexample:
  "Some \<lparr>Name = ''second'', Source = [(''raw'', IInt 5), (''port'', IInt 8080)]\<rparr>
     \<in> set (Sources (RemoteCfg example_srv))
   \<and> Get_range [(''raw'', IInt 5), (''port'', IInt 8080)] ''raw'' = Some (IInt 5)
   \<and> \<not> is_string (IInt 5)
   \<and> SpringConfigServer_GetString example_srv ''raw'' = Return (''a: 1'', True)"
  by (simp add: example_srv_def is_string_def SpringConfigServer_GetString_def
        SpringConfigServer_Get_def)

section \<open>Where the code departs from the specification\<close>

text \<open>The include loop and the merge give the same result whatever \<open>enableInclude\<close> is.\<close>

lemma LoadFromFile_read_enableInclude:
  "LoadFromFile_read ext fs (opt\<lparr>enableInclude := b\<rparr>) p s = LoadFromFile_read ext fs opt p s"
  by (simp add: LoadFromFile_read_def configTypeOf_def isSettingsFileEncrypted_def
           split: sum.splits)

lemma RECUR_INCLUDE_LOOP_enableInclude:
  "RECUR_INCLUDE_LOOP ext fs (opt\<lparr>enableInclude := b\<rparr>) dir cur files s =
   RECUR_INCLUDE_LOOP ext fs opt dir cur files s"
proof (induction ext fs opt dir cur files s rule: RECUR_INCLUDE_LOOP.induct)
  case (1 ext fs opt dir cur files s)
  obtain r s1 where rd: "LoadFromFile_read ext fs opt cur s = (r, s1)" by fastforce
  obtain inc s2 where gs: "GetString ext settingsIncludeKey s1 = (inc, s2)" by fastforce
  show ?case
  proof (cases "r = None \<and> inc \<noteq> [] \<and> filepath_Join dir inc \<notin> set files")
    case True
    then have "r = None" "inc \<noteq> []" "filepath_Join dir inc \<notin> set files" by simp_all
    from "1.IH"[OF rd[symmetric] this(1) gs[symmetric] this(2,3)] True rd gs
    show ?thesis
      by (subst (1 2) RECUR_INCLUDE_LOOP.simps) (simp add: LoadFromFile_read_enableInclude)
  next
    case False
    with rd gs show ?thesis
      by (subst (1 2) RECUR_INCLUDE_LOOP.simps)
         (auto simp: LoadFromFile_read_enableInclude split: option.splits)
  qed
qed

lemma loadConfigFiles_enableInclude:
  "loadConfigFiles ext fs (opt\<lparr>enableInclude := b\<rparr>) cfgFiles s =
   loadConfigFiles ext fs opt cfgFiles s"
proof -
  have one: "loadConfigFiles_file ext fs (opt\<lparr>enableInclude := b\<rparr>) p t =
             loadConfigFiles_file ext fs opt p t" for p t
    by (simp add: loadConfigFiles_file_def isSettingsFileEncrypted_def split: sum.splits)
  have "loadConfigFiles_loop ext fs (opt\<lparr>enableInclude := b\<rparr>) cfgFiles n t =
        loadConfigFiles_loop ext fs opt cfgFiles n t" for n t
    by (induction n arbitrary: t) (simp_all add: one split: prod.splits option.splits)
  then show ?thesis by (simp add: loadConfigFiles_def)
qed

text \<open>
  Claim C2 (the code does otherwise). \<open>LoadFromFile\<close> never reads \<open>enableInclude\<close>:
  called without any option on a file with an \<^verbatim>\<open>include\<close> key, it resolves the chain of two
  files, opens the included file and merges it (the key \<^verbatim>\<open>b\<close> comes from it).
\<close>

theorem LoadFromFile_include_without_option:
  "applyOptfs (fillDefault new_option) [] = Inr (fillDefault new_option)
   \<and> enableInclude (fillDefault new_option) = False
   \<and> fst (RECUR_INCLUDE_LOOP example_ext example_fs (fillDefault new_option)
            (filepath_Dir ''/etc/app/settings.yml'') ''/etc/app/settings.yml''
            [''/etc/app/settings.yml''] New)
       = Inr [''/etc/app/settings.yml'', ''/etc/app/base.yml'']
   \<and> fst (LoadFromFile example_ext example_fs ''/etc/app/settings.yml'' [] New) = None
   \<and> map (kv (v (snd (LoadFromFile example_ext example_fs ''/etc/app/settings.yml'' [] New))))
        [''a'', ''b''] = [Some (IInt 2), Some (IInt 1)]"
  by code_simp

text \<open>An error of the AES reader wrapper is the result of the pass, unchanged.\<close>

lemma decrypt_failure_returned_bare:
  assumes "os_Open fs p = Inr fp" and "isSettingsFileEncrypted opt p"
    and "NewAesReaderWrapper ext fp (slice_bytes (aesKey opt)) = Inl e"
  shows "fst (LoadFromFile_read ext fs opt p s) = Some e"
    and "fst (loadConfigFiles_file ext fs opt p s) = Some e"
  using assms by (simp_all add: LoadFromFile_read_def loadConfigFiles_file_def)

text \<open>
  Claim C4 (the code does otherwise). When the AES reader wrapper cannot be built for an
  encrypted file, both the include loop and \<open>loadConfigFiles\<close> return the collaborator's
  error as it is: no message of the package and no file path is added.
\<close>

theorem LoadFromFile_decrypt_error_unwrapped:
  "isSettingsFileEncrypted
     (fillDefault new_option\<lparr>aesKey := Some ''0123456789abcdef''\<rparr>) ''/etc/app/secret.yml.enc''
   \<and> fst (LoadFromFile example_ext example_fs ''/etc/app/secret.yml.enc''
            [WithAesEncrypt (Some ''0123456789abcdef'')] New)
       = Some (External ''cipher: message authentication failed'')
   \<and> fst (loadConfigFiles example_ext example_fs
            (fillDefault new_option\<lparr>aesKey := Some ''0123456789abcdef''\<rparr>)
            [''/etc/app/secret.yml.enc''] example_store)
       = Some (External ''cipher: message authentication failed'')"
  by code_simp

text \<open>\<open>loadConfigFiles\<close> leaves the serialization type of the store as it finds it.\<close>

lemma merge_seq_configType:
  "configType (v (snd (merge_seq ext fs opt ps s))) = configType (v s)"
proof (induction ps arbitrary: s)
  case Nil
  show ?case by simp
next
  case (Cons p ps)
  obtain r s1 where one: "loadConfigFiles_file ext fs opt p s = (r, s1)" by fastforce
  with loadConfigFiles_file_frame[OF one] Cons.IH[of s1] show ?case
    by (cases r) simp_all
qed

lemma loadConfigFiles_keeps_configType:
  "configType (v (snd (loadConfigFiles ext fs opt cfgFiles s))) = configType (v s)"
  by (simp add: loadConfigFiles_seq merge_seq_configType)

text \<open>
  Claim C5 (the code does otherwise). \<open>loadConfigFiles\<close> does not set the serialization
  type; the store keeps the type of the last file the include loop read. For a YAML entry
  file that includes a TOML file, the entry file's own type is \<^verbatim>\<open>yml\<close>, the type in force
  during the merge is \<^verbatim>\<open>toml\<close>, and the entry file is handed to the TOML parser.
\<close>

theorem loadConfigFiles_uses_last_type:
  "configTypeOf (fillDefault new_option) ''/etc/app/main.yml'' = ''yml''
   \<and> fst (RECUR_INCLUDE_LOOP example_ext example_fs (fillDefault new_option)
            (filepath_Dir ''/etc/app/main.yml'') ''/etc/app/main.yml'' [''/etc/app/main.yml''] New)
       = Inr [''/etc/app/main.yml'', ''/etc/app/extra.toml'']
   \<and> configType (v (snd (RECUR_INCLUDE_LOOP example_ext example_fs (fillDefault new_option)
            (filepath_Dir ''/etc/app/main.yml'') ''/etc/app/main.yml'' [''/etc/app/main.yml''] New)))
       = ''toml''
   \<and> fst (LoadFromFile example_ext example_fs ''/etc/app/main.yml'' [] New)
       = Some (Wrapf (External ''toml: parse error'') ''merge config file `/etc/app/main.yml`'')"
  by code_simp

text \<open>
  Claim C1 (the code does otherwise). For the resolved chain of a YAML entry file that
  includes a TOML file (no path twice), the entry file defines the key \<^verbatim>\<open>a\<close> under its own
  type. \<open>loadConfigFiles\<close> merges the included file, then hands the entry file to the
  TOML parser, because the store still has the type of the last file the include loop
  read: \<open>LoadFromFile\<close> fails and the store has the included file's key \<^verbatim>\<open>b\<close> but not the
  entry file's key \<^verbatim>\<open>a\<close>. On a chain whose merge succeeds the entry file does win, as
  \<open>loadConfigFiles_entry_wins\<close> shows.
\<close>

theorem LoadFromFile_entry_key_lost:
  "fst (RECUR_INCLUDE_LOOP example_ext example_fs (fillDefault new_option)
          (filepath_Dir ''/etc/app/main.yml'') ''/etc/app/main.yml'' [''/etc/app/main.yml''] New)
     = Inr [''/etc/app/main.yml'', ''/etc/app/extra.toml'']
   \<and> distinct [''/etc/app/main.yml'', ''/etc/app/extra.toml'']
   \<and> (case file_document example_ext example_fs (fillDefault new_option)
               (configTypeOf (fillDefault new_option) ''/etc/app/main.yml'') ''/etc/app/main.yml'' of
         Inl e \<Rightarrow> None
       | Inr doc \<Rightarrow> doc ''a'') = Some (IInt 2)
   \<and> fst (LoadFromFile example_ext example_fs ''/etc/app/main.yml'' [] New)
       = Some (Wrapf (External ''toml: parse error'') ''merge config file `/etc/app/main.yml`'')
   \<and> map (kv (v (snd (LoadFromFile example_ext example_fs ''/etc/app/main.yml'' [] New))))
         [''a'', ''b''] = [None, Some (IInt 1)]"
  by code_simp

text \<open>Every entry that \<open>Map\<close> hands to the store's \<^verbatim>\<open>Set\<close> is a store write with no lock operation around it.\<close>

lemma Map_range_unlocked:
  "mu (Map_range entries v_Set s) = mu s @ replicate (length entries) (EvStore Writes)"
proof (induction entries arbitrary: s)
  case Nil
  show ?case by simp
next
  case (Cons x entries)
  obtain key val where x: "x = (key, val)" by fastforce
  have "mu (v_Set key val s) = mu s @ [EvStore Writes]"
    by (simp add: v_Set_def store_call_def)
  then show ?case unfolding x by (simp add: Cons.IH)
qed

text \<open>
  Claim C9 (the code does otherwise). \<open>LoadFromConfigServer\<close> passes the store's own
  \<^verbatim>\<open>Set\<close> to \<open>Map\<close>: the store is written with no lock held, where the method \<open>Set\<close> of
  the instance takes the write lock around the same call.
\<close>

theorem LoadFromConfigServer_sets_without_lock:
  "mu (snd (LoadFromConfigServer example_ext ''http://cfg'' ''app'' ''dev'' ''main'' New))
     = [EvStore Writes]
   \<and> \<not> disciplined Free
         (mu (snd (LoadFromConfigServer example_ext ''http://cfg'' ''app'' ''dev'' ''main'' New)))
   \<and> kv (v (snd (LoadFromConfigServer example_ext ''http://cfg'' ''app'' ''dev'' ''main'' New)))
        ''k'' = Some (IString ''val'')
   \<and> disciplined Free (mu (Set ''k'' (IString ''val'') New))"
  by code_simp

end
